theory Spec2Isabelle
  imports Main "HOL-Library.Word" "HOL-Library.Signed_Division"
begin

section \<open>Data crossing the library boundaries\<close>

subsection \<open>JSON values (jansson)\<close>

datatype json =
    JNull
  | JTrue
  | JFalse
  | JInteger int
  | JReal string
  | JString string
  | JArray "json list"
  | JObject "(string \<times> json) list"

fun json_is_array :: "json \<Rightarrow> bool" where
  "json_is_array (JArray _) = True"
| "json_is_array _ = False"

fun json_is_string :: "json \<Rightarrow> bool" where
  "json_is_string (JString _) = True"
| "json_is_string _ = False"

text \<open>\<open>json_object_set\<close> on the members of an object: an existing key is replaced in
  place, a new key is added.\<close>

fun json_object_set :: "(string \<times> json) list \<Rightarrow> string \<Rightarrow> json \<Rightarrow> (string \<times> json) list" where
  "json_object_set [] k v = [(k, v)]"
| "json_object_set ((k', v') # kvs) k v =
     (if k' = k then (k, v) # kvs else (k', v') # json_object_set kvs k v)"

subsection \<open>HTTP requests and what is sent back (libevent)\<close>

datatype evhttp_cmd_type =
    EVHTTP_REQ_GET
  | EVHTTP_REQ_POST
  | EVHTTP_REQ_HEAD
  | EVHTTP_REQ_PUT
  | EVHTTP_REQ_DELETE
  | EVHTTP_REQ_OPTIONS
  | EVHTTP_REQ_TRACE
  | EVHTTP_REQ_CONNECT
  | EVHTTP_REQ_PATCH

record evhttp_request =
  evhttp_request_get_command :: evhttp_cmd_type
  evhttp_request_get_uri :: string
  evhttp_request_get_input_buffer :: string

text \<open>The content of an output buffer: nothing, or the text \<open>json_dumps\<close> gives for a
  value with \<open>JSON_COMPACT\<close>.\<close>

datatype evbuffer = Evbuffer_new | Json_dumps json

subsection \<open>Playlists, tracks and links (libspotify)\<close>

text \<open>A track is known to the server by the text of its link only.\<close>

datatype sp_track = Track string

fun sp_link_create_from_track :: "sp_track \<Rightarrow> string" where
  "sp_link_create_from_track (Track u) = u"

datatype sp_linktype =
    SP_LINKTYPE_INVALID
  | SP_LINKTYPE_TRACK
  | SP_LINKTYPE_ALBUM
  | SP_LINKTYPE_ARTIST
  | SP_LINKTYPE_SEARCH
  | SP_LINKTYPE_PLAYLIST

text \<open>A link, with what the library answers for it: its type, the track
  \<open>sp_link_as_track\<close> returns (or \<open>NULL\<close>) and the playlist \<open>sp_playlist_create\<close>
  returns (or \<open>NULL\<close>).\<close>

record sp_link =
  sp_link_type :: sp_linktype
  sp_link_as_track :: "sp_track option"
  sp_playlist_create :: "nat option"

text \<open>The state of one playlist as the getters of the library show it.\<close>

record sp_playlist =
  sp_playlist_link :: string
  sp_playlist_name :: string
  sp_playlist_owner :: string
  sp_playlist_is_collaborative :: bool
  sp_playlist_tracks :: "sp_track list"
  sp_playlist_is_loaded :: bool
  sp_playlist_has_pending_changes :: bool

datatype sp_error =
    SP_ERROR_OK
  | SP_ERROR_INVALID_INDATA
  | SP_ERROR_PERMISSION_DENIED
  | SP_ERROR_OTHER nat

subsection \<open>Handlers and registrations\<close>

text \<open>The two callback tables of the server: each has one entry only.\<close>

datatype sp_playlist_callbacks =
    Playlist_state_changed_callbacks
  | Playlist_update_in_progress_callbacks

text \<open>The functions a \<open>handle_playlist_fn\<close> pointer is set to.\<close>

datatype handle_playlist_fn =
    Not_implemented
  | Get_playlist
  | Get_playlist_collaborative
  | Put_playlist_add_tracks
  | Put_playlist_remove_tracks
  | Put_playlist_patch

text \<open>The values the \<open>void *userdata\<close> of a handler is set to.\<close>

datatype userdata = Userdata_NULL | Userdata_session | Userdata_state

record playlist_handler =
  playlist_callbacks :: "sp_playlist_callbacks option"
  request :: evhttp_request
  callback :: handle_playlist_fn
  userdata :: userdata

subsection \<open>The world the handlers act on\<close>

text \<open>Calls of the mutation primitives of the backend.\<close>

datatype backend_call =
    Sp_playlist_add_tracks nat "sp_track list" int
  | Sp_playlist_remove_tracks nat "int list"

text \<open>What the server does that can be seen from outside, in the order it is done.
  \<open>Dispatched a\<close> records that \<open>playlist_dispatch\<close> called the callback of the handler
  allocated at \<open>a\<close>.\<close>

datatype action =
    Evhttp_add_header evhttp_request string string
  | Evhttp_send_reply evhttp_request int string evbuffer
  | Evhttp_send_error evhttp_request int string
  | Backend backend_call
  | Dispatched nat

text \<open>
  \<^item> \<open>playlists\<close>: the playlists of the session, by address;
  \<^item> \<open>registered\<close>: the callback sets of the playlists, each entry
    (playlist, callback table, userdata) as \<open>sp_playlist_add_callbacks\<close> received it,
    in the order of the calls;
  \<^item> \<open>handlers\<close>: the \<open>struct playlist_handler\<close> objects that are allocated;
  \<open>next_handler\<close>: the address \<open>malloc\<close> gives next (an address is not given twice
    here, so that it names one registration);
  \<^item> \<open>trace\<close>: the actions so far.
\<close>

record world =
  playlists :: "nat \<Rightarrow> sp_playlist"
  registered :: "(nat \<times> sp_playlist_callbacks \<times> nat) list"
  handlers :: "nat \<Rightarrow> playlist_handler option"
  next_handler :: nat
  trace :: "action list"

definition do_action :: "action \<Rightarrow> world \<Rightarrow> world" where
  "do_action a w = w\<lparr>trace := trace w @ [a]\<rparr>"

section \<open>Replies\<close>

definition send_reply :: "evhttp_request \<Rightarrow> int \<Rightarrow> string \<Rightarrow> evbuffer \<Rightarrow> world \<Rightarrow> world" where
  "send_reply req code message buf w =
     do_action (Evhttp_send_reply req code message buf)
       (do_action (Evhttp_add_header req ''Content-type'' ''application/json; charset=UTF-8'') w)"

definition send_error :: "evhttp_request \<Rightarrow> int \<Rightarrow> string \<Rightarrow> world \<Rightarrow> world" where
  "send_error req code message w =
     (let error_object = json_object_set [] ''message'' (JString message)
      in send_reply req code message (Json_dumps (JObject error_object)) w)"

definition send_error_sp :: "(sp_error \<Rightarrow> string) \<Rightarrow> evhttp_request \<Rightarrow> int \<Rightarrow> sp_error \<Rightarrow> world \<Rightarrow> world" where
  "send_error_sp sp_error_message req code err w = send_error req code (sp_error_message err) w"

abbreviation HTTP_OK :: int where "HTTP_OK \<equiv> 200"
abbreviation HTTP_BADREQUEST :: int where "HTTP_BADREQUEST \<equiv> 400"
abbreviation HTTP_NOTFOUND :: int where "HTTP_NOTFOUND \<equiv> 404"

section \<open>The libraries, as far as the server calls them\<close>

text \<open>The functions of libevent, jansson and libspotify whose results the code depends on
  are parameters of the model, and so are the two functions of \<open>diff.h\<close>, whose
  code is not part of \<open>server.c\<close>:
  \<^item> \<open>evhttp_find_query uri key\<close>: \<open>evhttp_parse_query\<close> on the URI, then
    \<open>evhttp_find_header\<close> for the key;
  \<^item> \<open>json_loads\<close>: the value, or the text of \<open>json_error_t\<close>;
  \<^item> \<open>sp_playlist_add_tracks\<close>, \<open>sp_playlist_remove_tracks\<close>: the error code and the
    playlist after the call;
  \<^item> \<open>diff_playlist_tracks\<close>: an error or a diff of type \<open>'d\<close>;
  \<^item> \<open>diff_playlist_tracks_apply\<close>: an error or none, the playlist after the call and
    the calls of the mutation primitives it made.
\<close>

record 'd lib =
  evhttp_decode_uri :: "string \<Rightarrow> string"
  evhttp_find_query :: "string \<Rightarrow> string \<Rightarrow> string option"
  json_loads :: "string \<Rightarrow> string + json"
  sp_link_create_from_string :: "string \<Rightarrow> sp_link option"
  sp_playlist_add_tracks :: "sp_playlist \<Rightarrow> sp_track list \<Rightarrow> int \<Rightarrow> sp_error \<times> sp_playlist"
  sp_playlist_remove_tracks :: "sp_playlist \<Rightarrow> int list \<Rightarrow> sp_error \<times> sp_playlist"
  sp_error_message :: "sp_error \<Rightarrow> string"
  diff_playlist_tracks :: "sp_playlist \<Rightarrow> sp_track list \<Rightarrow> string + 'd"
  diff_playlist_tracks_apply ::
    "'d \<Rightarrow> nat \<Rightarrow> sp_playlist \<Rightarrow> sp_track list \<Rightarrow> string option \<times> sp_playlist \<times> backend_call list"

subsection \<open>The C library\<close>

definition isspace :: "char \<Rightarrow> bool" where
  "isspace c = (c \<in> set [CHR '' '', CHR 0x09, CHR 0x0A, CHR 0x0B, CHR 0x0C, CHR 0x0D])"

definition isdigit :: "char \<Rightarrow> bool" where
  "isdigit c = (48 \<le> (of_char c :: nat) \<and> (of_char c :: nat) \<le> 57)"

fun digits_value :: "string \<Rightarrow> int \<Rightarrow> int" where
  "digits_value [] acc = acc"
| "digits_value (c # cs) acc = digits_value cs (acc * 10 + (int (of_char c) - 48))"

text \<open>What is stored into the \<open>int\<close> for a decimal numeral of value \<open>v\<close>: the
  conversion saturates at the range of \<open>long\<close> (64 bits) and the store keeps the low
  32 bits.\<close>

definition store_int :: "int \<Rightarrow> int" where
  "store_int v = sint (word_of_int (max (- (2 ^ 63)) (min (2 ^ 63 - 1) v)) :: 32 word)"

text \<open>The sum of two \<open>int\<close>, as in \<open>tracks[i] = index + i\<close>: the low 32 bits
  of the sum, read as a signed number.\<close>

definition int_add :: "int \<Rightarrow> int \<Rightarrow> int" where
  "int_add a b = sint (word_of_int (a + b) :: 32 word)"

text \<open>\<open>sscanf(s, "%d", &x)\<close>: white space is skipped, then an optional sign and at
  least one digit are read. \<open>None\<close> stands for a result \<open>\<le> 0\<close> (nothing converted),
  \<open>Some x\<close> for the result 1 with \<open>x\<close> stored.\<close>

definition sscanf_d :: "string \<Rightarrow> int option" where
  "sscanf_d s =
     (let s = dropWhile isspace s;
          neg = (take 1 s = ''-'');
          s = (if take 1 s = ''-'' \<or> take 1 s = ''+'' then drop 1 s else s);
          ds = takeWhile isdigit s
      in if ds = [] then None
         else Some (store_int ((if neg then - 1 else 1) * digits_value ds 0)))"

text \<open>One call of \<open>strtok\<close> with the delimiter \<open>"/"\<close> on what is left of the text:
  \<open>None\<close> for \<open>NULL\<close>, or the token and the rest.\<close>

definition strtok :: "string \<Rightarrow> (string \<times> string) option" where
  "strtok s =
     (let s = dropWhile (\<lambda>c. c = CHR ''/'') s
      in if s = [] then None
         else Some (takeWhile (\<lambda>c. c \<noteq> CHR ''/'') s, drop 1 (dropWhile (\<lambda>c. c \<noteq> CHR ''/'') s)))"

text \<open>\<open>strncmp(a, b, n) == 0\<close>.\<close>

definition strncmp_eq :: "string \<Rightarrow> string \<Rightarrow> nat \<Rightarrow> bool" where
  "strncmp_eq a b n = (take n a = take n b)"

text \<open>\<open>strncpy\<close> of the input buffer into the zeroed request body stops at a zero byte.\<close>

definition read_body :: "string \<Rightarrow> string" where
  "read_body buf = takeWhile (\<lambda>c. c \<noteq> CHR 0x00) buf"

section \<open>The continuation registry\<close>

definition register_playlist_callbacks ::
  "nat \<Rightarrow> evhttp_request \<Rightarrow> handle_playlist_fn \<Rightarrow> sp_playlist_callbacks \<Rightarrow> userdata \<Rightarrow> world \<Rightarrow> nat \<times> world" where
  "register_playlist_callbacks p req f cbs ud w =
     (let handler = next_handler w;
          h = \<lparr>playlist_callbacks = Some cbs, request = req, callback = f, userdata = ud\<rparr>
      in (handler,
          w\<lparr>handlers := (handlers w)(handler \<mapsto> h),
            next_handler := Suc handler,
            registered := registered w @ [(p, cbs, handler)]\<rparr>))"

text \<open>\<open>sp_playlist_remove_callbacks\<close>: the entry with this table and this userdata
  leaves the callback set of the playlist; with \<open>NULL\<close> for the table there is no such
  entry.\<close>

definition sp_playlist_remove_callbacks :: "nat \<Rightarrow> sp_playlist_callbacks option \<Rightarrow> nat \<Rightarrow> world \<Rightarrow> world" where
  "sp_playlist_remove_callbacks p cbs handler w =
     (case cbs of
        None \<Rightarrow> w
      | Some c \<Rightarrow> w\<lparr>registered := remove1 (p, c, handler) (registered w)\<rparr>)"

definition free :: "nat \<Rightarrow> world \<Rightarrow> world" where
  "free handler w = w\<lparr>handlers := (handlers w)(handler := None)\<rparr>"

section \<open>The handlers\<close>

text \<open>\<open>not_implemented\<close>: the error page of libevent, not \<open>send_error\<close>.\<close>

definition not_implemented :: "evhttp_request \<Rightarrow> world \<Rightarrow> world" where
  "not_implemented req w = do_action (Evhttp_send_error req 500 ''Not Implemented'') w"

text \<open>\<open>sp_link_as_string\<close> into a buffer of \<open>n\<close> bytes: at most \<open>n - 1\<close> bytes of the
  text and the terminating zero.\<close>

definition sp_link_as_string :: "string \<Rightarrow> nat \<Rightarrow> string" where
  "sp_link_as_string l n = take (n - 1) l"

text \<open>The loop of \<open>get_playlist\<close> over the tracks, appending to the array.\<close>

fun append_tracks :: "sp_track list \<Rightarrow> json list \<Rightarrow> json list" where
  "append_tracks [] arr = arr"
| "append_tracks (t # ts) arr =
     append_tracks ts (arr @ [JString (sp_link_as_string (sp_link_create_from_track t) 64)])"

definition playlist_json :: "sp_playlist \<Rightarrow> json" where
  "playlist_json pl =
     (let json = [];
          json = json_object_set json ''uri'' (JString (sp_link_as_string (sp_playlist_link pl) 64));
          json = json_object_set json ''title'' (JString (sp_playlist_name pl));
          json = json_object_set json ''creator'' (JString (sp_playlist_owner pl));
          json = json_object_set json ''collaborative''
                   (if sp_playlist_is_collaborative pl then JTrue else JFalse);
          tracks = append_tracks (sp_playlist_tracks pl) [];
          json = json_object_set json ''tracks'' (JArray tracks)
      in JObject json)"

text \<open>\<open>get_playlist\<close>. The name and the owner of the playlist are taken to be
  valid UTF-8, so that the JSON library builds every member and \<open>json_dumps\<close>
  returns a text; the source does not test its result before \<open>strlen\<close>.\<close>

definition get_playlist :: "nat \<Rightarrow> evhttp_request \<Rightarrow> world \<Rightarrow> world" where
  "get_playlist p req w =
     send_reply req 200 ''OK'' (Json_dumps (playlist_json (playlists w p))) w"

text \<open>\<open>get_playlist_collaborative\<close>: the assertion aborts the process (\<open>None\<close>) when
  the playlist is not loaded.\<close>

definition get_playlist_collaborative :: "nat \<Rightarrow> evhttp_request \<Rightarrow> world \<Rightarrow> world option" where
  "get_playlist_collaborative p req w =
     (if \<not> sp_playlist_is_loaded (playlists w p) then None
      else
        (let is_collaborative = sp_playlist_is_collaborative (playlists w p);
             result = json_object_set [] ''collaborative'' (if is_collaborative then JTrue else JFalse)
         in Some (send_reply req HTTP_OK ''OK'' (Json_dumps (JObject result)) w)))"

text \<open>The loop of \<open>put_playlist_add_tracks\<close> and of \<open>put_playlist_patch\<close> over the
  entries of the JSON array: an entry that is not a string, does not parse as a link, is
  not a track link or has no track is passed over (\<open>continue\<close>). The reference
  counts of the JSON values and of the links (\<open>json_decref\<close>, \<open>sp_link_release\<close>) are
  not part of the model.\<close>

fun read_tracks :: "(string \<Rightarrow> sp_link option) \<Rightarrow> json list \<Rightarrow> sp_track list \<Rightarrow> sp_track list" where
  "read_tracks lk [] tracks = tracks"
| "read_tracks lk (item # items) tracks =
     (case item of
        JString uri \<Rightarrow>
          (case lk uri of
             None \<Rightarrow> read_tracks lk items tracks
           | Some track_link \<Rightarrow>
               if sp_link_type track_link \<noteq> SP_LINKTYPE_TRACK then read_tracks lk items tracks
               else
                 (case sp_link_as_track track_link of
                    None \<Rightarrow> read_tracks lk items tracks
                  | Some track \<Rightarrow> read_tracks lk items (tracks @ [track])))
      | _ \<Rightarrow> read_tracks lk items tracks)"

text \<open>A call of a mutation primitive: the playlist changes as the library says and the
  call is recorded.\<close>

definition backend_add_tracks :: "'d lib \<Rightarrow> nat \<Rightarrow> sp_track list \<Rightarrow> int \<Rightarrow> world \<Rightarrow> sp_error \<times> world" where
  "backend_add_tracks lib p tracks index w =
     (case sp_playlist_add_tracks lib (playlists w p) tracks index of
        (err, pl) \<Rightarrow>
          (err, do_action (Backend (Sp_playlist_add_tracks p tracks index))
                  (w\<lparr>playlists := (playlists w)(p := pl)\<rparr>)))"

definition backend_remove_tracks :: "'d lib \<Rightarrow> nat \<Rightarrow> int list \<Rightarrow> world \<Rightarrow> sp_error \<times> world" where
  "backend_remove_tracks lib p tracks w =
     (case sp_playlist_remove_tracks lib (playlists w p) tracks of
        (err, pl) \<Rightarrow>
          (err, do_action (Backend (Sp_playlist_remove_tracks p tracks))
                  (w\<lparr>playlists := (playlists w)(p := pl)\<rparr>)))"

text \<open>The error branch after a mutation primitive: the registration made just before is
  taken back and the error of the backend is sent.\<close>

definition unregister_and_fail :: "'d lib \<Rightarrow> nat \<Rightarrow> evhttp_request \<Rightarrow> nat \<Rightarrow> sp_error \<Rightarrow> world \<Rightarrow> world" where
  "unregister_and_fail lib p req handler err w =
     (let cbs = (case handlers w handler of None \<Rightarrow> None | Some h \<Rightarrow> playlist_callbacks h);
          w = sp_playlist_remove_callbacks p cbs handler w;
          w = free handler w
      in send_error_sp (sp_error_message lib) req HTTP_BADREQUEST err w)"

definition put_playlist_add_tracks :: "'d lib \<Rightarrow> nat \<Rightarrow> evhttp_request \<Rightarrow> world \<Rightarrow> world" where
  "put_playlist_add_tracks lib p req w =
     (let uri = evhttp_request_get_uri req;
          index_field = evhttp_find_query lib uri ''index''
      in case (case index_field of None \<Rightarrow> None | Some f \<Rightarrow> sscanf_d f) of
           None \<Rightarrow> send_error req HTTP_BADREQUEST ''Bad parameter: index must be numeric'' w
         | Some index \<Rightarrow>
             (let buf = evhttp_request_get_input_buffer req
              in if length buf = 0 then send_error req HTTP_BADREQUEST ''No body'' w
                 else
                   (case json_loads lib (read_body buf) of
                      Inl text \<Rightarrow> send_error req HTTP_BADREQUEST text w
                    | Inr json \<Rightarrow>
                        (case json of
                           JArray items \<Rightarrow>
                             if length items = 0 then send_reply req HTTP_OK ''OK'' Evbuffer_new w
                             else
                               (let tracks = read_tracks (sp_link_create_from_string lib) items []
                                in if length tracks = 0
                                   then send_error req HTTP_BADREQUEST ''No valid tracks'' w
                                   else
                                     (case register_playlist_callbacks p req Get_playlist
                                             Playlist_update_in_progress_callbacks Userdata_NULL w of
                                        (handler, w) \<Rightarrow>
                                          (case backend_add_tracks lib p tracks index w of
                                             (add_tracks_error, w) \<Rightarrow>
                                               if add_tracks_error \<noteq> SP_ERROR_OK
                                               then unregister_and_fail lib p req handler add_tracks_error w
                                               else w)))
                         | _ \<Rightarrow> send_error req HTTP_BADREQUEST ''Not valid JSON array'' w))))"

text \<open>\<open>put_playlist_remove_tracks\<close>: the body of the request is never read. The
  indices \<open>index + i\<close> are sums of two \<open>int\<close> and wrap around when
  \<open>index + count\<close> passes the range of 32 bits. The allocation of the array of
  indices (\<open>calloc\<close>) is taken to succeed; the source does not test it.\<close>

definition put_playlist_remove_tracks :: "'d lib \<Rightarrow> nat \<Rightarrow> evhttp_request \<Rightarrow> world \<Rightarrow> world" where
  "put_playlist_remove_tracks lib p req w =
     (let uri = evhttp_request_get_uri req;
          index_field = evhttp_find_query lib uri ''index''
      in case (case index_field of None \<Rightarrow> None | Some f \<Rightarrow> sscanf_d f) of
           None \<Rightarrow> send_error req HTTP_BADREQUEST ''Bad parameter: index must be numeric'' w
         | Some index \<Rightarrow>
             if index < 0
             then send_error req HTTP_BADREQUEST ''Bad parameter: index must be numeric'' w
             else
               (let count_field = evhttp_find_query lib uri ''count''
                in case (case count_field of None \<Rightarrow> None | Some f \<Rightarrow> sscanf_d f) of
                     None \<Rightarrow>
                       send_error req HTTP_BADREQUEST
                         ''Bad parameter: count must be numeric and positive'' w
                   | Some count \<Rightarrow>
                       if count < 1
                       then send_error req HTTP_BADREQUEST
                              ''Bad parameter: count must be numeric and positive'' w
                       else
                         (let tracks = map (\<lambda>i. int_add index (int i)) [0..<nat count]
                          in case register_playlist_callbacks p req Get_playlist
                                    Playlist_update_in_progress_callbacks Userdata_NULL w of
                               (handler, w) \<Rightarrow>
                                 (case backend_remove_tracks lib p tracks w of
                                    (remove_tracks_error, w) \<Rightarrow>
                                      if remove_tracks_error \<noteq> SP_ERROR_OK
                                      then unregister_and_fail lib p req handler remove_tracks_error w
                                      else w))))"

text \<open>The part of \<open>put_playlist_patch\<close> after the tracks are read ("Apply diff").\<close>

definition apply_diff :: "'d lib \<Rightarrow> nat \<Rightarrow> evhttp_request \<Rightarrow> sp_track list \<Rightarrow> world \<Rightarrow> world" where
  "apply_diff lib p req tracks w =
     (case diff_playlist_tracks lib (playlists w p) tracks of
        Inl diff_error \<Rightarrow> send_error req HTTP_BADREQUEST ''Search failed'' w
      | Inr diff \<Rightarrow>
          (case diff_playlist_tracks_apply lib diff p (playlists w p) tracks of
             (apply_error, pl, calls) \<Rightarrow>
               (let w = w\<lparr>playlists := (playlists w)(p := pl),
                          trace := trace w @ map Backend calls\<rparr>
                in if apply_error \<noteq> None
                   then send_error req HTTP_BADREQUEST ''Could not apply diff'' w
                   else if \<not> sp_playlist_has_pending_changes (playlists w p)
                   then get_playlist p req w
                   else snd (register_playlist_callbacks p req Get_playlist
                               Playlist_update_in_progress_callbacks Userdata_NULL w))))"

definition put_playlist_patch :: "'d lib \<Rightarrow> nat \<Rightarrow> evhttp_request \<Rightarrow> world \<Rightarrow> world" where
  "put_playlist_patch lib p req w =
     (let buf = evhttp_request_get_input_buffer req
      in if length buf = 0 then send_error req HTTP_BADREQUEST ''No body'' w
         else
           (case json_loads lib (read_body buf) of
              Inl text \<Rightarrow> send_error req HTTP_BADREQUEST text w
            | Inr json \<Rightarrow>
                (case json of
                   JArray items \<Rightarrow>
                     if length items = 0 then send_reply req HTTP_OK ''OK'' Evbuffer_new w
                     else
                       (let tracks = read_tracks (sp_link_create_from_string lib) items []
                        in if length tracks = 0
                           then send_error req HTTP_BADREQUEST ''No valid tracks'' w
                           else apply_diff lib p req tracks w)
                 | _ \<Rightarrow> send_error req HTTP_BADREQUEST ''Not valid JSON array'' w)))"

text \<open>A call through a \<open>handle_playlist_fn\<close> pointer.\<close>

fun call_handler :: "'d lib \<Rightarrow> handle_playlist_fn \<Rightarrow> nat \<Rightarrow> evhttp_request \<Rightarrow> world \<Rightarrow> world option" where
  "call_handler lib Not_implemented p req w = Some (not_implemented req w)"
| "call_handler lib Get_playlist p req w = Some (get_playlist p req w)"
| "call_handler lib Get_playlist_collaborative p req w = get_playlist_collaborative p req w"
| "call_handler lib Put_playlist_add_tracks p req w = Some (put_playlist_add_tracks lib p req w)"
| "call_handler lib Put_playlist_remove_tracks p req w = Some (put_playlist_remove_tracks lib p req w)"
| "call_handler lib Put_playlist_patch p req w = Some (put_playlist_patch lib p req w)"

section \<open>Dispatch of a parked handler and the notifications\<close>

text \<open>\<open>playlist_dispatch\<close>: \<open>userdata\<close> is the address of the handler. Reading a handler
  that is not allocated is an abort (\<open>None\<close>).\<close>

definition playlist_dispatch :: "'d lib \<Rightarrow> nat \<Rightarrow> nat \<Rightarrow> world \<Rightarrow> world option" where
  "playlist_dispatch lib p ud w =
     (case handlers w ud of
        None \<Rightarrow> None
      | Some handler \<Rightarrow>
          (let w = sp_playlist_remove_callbacks p (playlist_callbacks handler) ud w;
               w = w\<lparr>handlers := (handlers w)(ud \<mapsto> handler\<lparr>playlist_callbacks := None\<rparr>)\<rparr>;
               w = do_action (Dispatched ud) w
           in case call_handler lib (callback handler) p (request handler) w of
                None \<Rightarrow> None
              | Some w \<Rightarrow> Some (free ud w)))"

definition playlist_state_changed :: "'d lib \<Rightarrow> nat \<Rightarrow> nat \<Rightarrow> world \<Rightarrow> world option" where
  "playlist_state_changed lib p ud w =
     (if \<not> sp_playlist_is_loaded (playlists w p) then Some w
      else playlist_dispatch lib p ud w)"

definition playlist_update_in_progress :: "'d lib \<Rightarrow> nat \<Rightarrow> bool \<Rightarrow> nat \<Rightarrow> world \<Rightarrow> world option" where
  "playlist_update_in_progress lib p done ud w =
     (if done then playlist_dispatch lib p ud w else Some w)"

text \<open>The notifications of a playlist the two callback tables have an entry for.\<close>

datatype notification = State_changed | Update_in_progress bool

text \<open>The library calls the entry of a table for a notification, if the table has one.\<close>

fun notify_entry :: "'d lib \<Rightarrow> nat \<Rightarrow> notification \<Rightarrow> sp_playlist_callbacks \<Rightarrow> nat \<Rightarrow> world \<Rightarrow> world option" where
  "notify_entry lib p State_changed Playlist_state_changed_callbacks ud w =
     playlist_state_changed lib p ud w"
| "notify_entry lib p (Update_in_progress done) Playlist_update_in_progress_callbacks ud w =
     playlist_update_in_progress lib p done ud w"
| "notify_entry lib p _ _ ud w = Some w"

text \<open>A notification of playlist \<open>p\<close> goes to the entries its callback set had when the
  notification started, in their order, each one if it is still in the set at its
  turn.\<close>

fun notify_entries ::
  "'d lib \<Rightarrow> nat \<Rightarrow> notification \<Rightarrow> (nat \<times> sp_playlist_callbacks \<times> nat) list \<Rightarrow> world \<Rightarrow> world option" where
  "notify_entries lib p n [] w = Some w"
| "notify_entries lib p n (e # es) w =
     (if fst e = p \<and> e \<in> set (registered w)
      then (case notify_entry lib p n (fst (snd e)) (snd (snd e)) w of
              None \<Rightarrow> None
            | Some w \<Rightarrow> notify_entries lib p n es w)
      else notify_entries lib p n es w)"

definition notify :: "'d lib \<Rightarrow> nat \<Rightarrow> notification \<Rightarrow> world \<Rightarrow> world option" where
  "notify lib p n w = notify_entries lib p n (registered w) w"

section \<open>The request dispatcher\<close>

text \<open>The choice of the handler from the method and the action. For \<open>PUT\<close> and
  \<open>POST\<close> the action is compared without a test for \<open>NULL\<close>: with no action the
  comparison reads through a null pointer (\<open>None\<close>).\<close>

definition select_callback :: "evhttp_cmd_type \<Rightarrow> string option \<Rightarrow> (handle_playlist_fn \<times> userdata) option" where
  "select_callback http_method action =
     (if http_method = EVHTTP_REQ_GET then
        (case action of
           None \<Rightarrow> Some (Get_playlist, Userdata_NULL)
         | Some a \<Rightarrow>
             if strncmp_eq a ''collaborative'' 13 then Some (Get_playlist_collaborative, Userdata_NULL)
             else Some (Not_implemented, Userdata_NULL))
      else if http_method = EVHTTP_REQ_PUT \<or> http_method = EVHTTP_REQ_POST then
        (case action of
           None \<Rightarrow> None
         | Some a \<Rightarrow>
             if strncmp_eq a ''add'' 3 then Some (Put_playlist_add_tracks, Userdata_session)
             else if strncmp_eq a ''remove'' 6 then Some (Put_playlist_remove_tracks, Userdata_session)
             else if strncmp_eq a ''patch'' 5 then Some (Put_playlist_patch, Userdata_state)
             else Some (Not_implemented, Userdata_session))
      else Some (Not_implemented, Userdata_NULL))"

text \<open>The end of \<open>handle_request\<close>: the handler is called at once on a loaded playlist,
  and parked on the state changes of the playlist otherwise.\<close>

definition dispatch_request ::
  "'d lib \<Rightarrow> nat \<Rightarrow> evhttp_request \<Rightarrow> handle_playlist_fn \<Rightarrow> userdata \<Rightarrow> world \<Rightarrow> world option" where
  "dispatch_request lib playlist req request_callback callback_userdata w =
     (if sp_playlist_is_loaded (playlists w playlist)
      then call_handler lib request_callback playlist req w
      else Some (snd (register_playlist_callbacks playlist req request_callback
                        Playlist_state_changed_callbacks callback_userdata w)))"

text \<open>\<open>handle_request\<close>. The tokens \<open>entity\<close>, \<open>playlist_uri\<close> and \<open>action\<close>
  point into the decoded URI. The source frees that buffer (\<open>free(uri)\<close>) before it
  compares the action, so the comparisons read freed memory; here the action is the
  text the memory held when it was freed.\<close>

definition handle_request :: "'d lib \<Rightarrow> evhttp_request \<Rightarrow> world \<Rightarrow> world option" where
  "handle_request lib req w =
     (let w = do_action (Evhttp_add_header req ''Server'' ''johan@liesen.se/spotify-api-server'') w;
          http_method = evhttp_request_get_command req
      in if http_method \<noteq> EVHTTP_REQ_GET \<and> http_method \<noteq> EVHTTP_REQ_PUT
            \<and> http_method \<noteq> EVHTTP_REQ_POST
         then Some (do_action (Evhttp_send_error req 501 ''Not Implemented'') w)
         else
           (case strtok (evhttp_decode_uri lib (evhttp_request_get_uri req)) of
              None \<Rightarrow> Some (do_action (Evhttp_send_error req HTTP_BADREQUEST ''Bad Request'') w)
            | Some (entity, rest) \<Rightarrow>
                if \<not> strncmp_eq entity ''playlist'' 8
                then Some (do_action (Evhttp_send_error req HTTP_BADREQUEST ''Bad Request'') w)
                else
                  (case strtok rest of
                     None \<Rightarrow>
                       if http_method = EVHTTP_REQ_PUT \<or> http_method = EVHTTP_REQ_POST
                       then Some (not_implemented req w)
                       else Some (send_error req HTTP_BADREQUEST ''Bad Request'' w)
                   | Some (playlist_uri, rest) \<Rightarrow>
                       (case sp_link_create_from_string lib playlist_uri of
                          None \<Rightarrow> Some (send_error req HTTP_NOTFOUND ''Link not found'' w)
                        | Some playlist_link \<Rightarrow>
                            if sp_link_type playlist_link \<noteq> SP_LINKTYPE_PLAYLIST
                            then Some (send_error req HTTP_BADREQUEST ''Not a playlist link'' w)
                            else
                              (case sp_playlist_create playlist_link of
                                 None \<Rightarrow> Some (send_error req HTTP_NOTFOUND ''Playlist not found'' w)
                               | Some playlist \<Rightarrow>
                                   (case select_callback http_method (map_option fst (strtok rest)) of
                                      None \<Rightarrow> None
                                    | Some (request_callback, callback_userdata) \<Rightarrow>
                                        dispatch_request lib playlist req request_callback
                                          callback_userdata w))))))"


section \<open>The event pump\<close>

record timeval =
  tv_sec :: int
  tv_usec :: int

text \<open>\<open>struct state\<close>: \<open>timer\<close> holds the delay the timer was added with, when it
  is pending; \<open>sigint\<close> says whether the signal event is added, \<open>loopbreak\<close> whether
  the loop was told to stop, \<open>pool\<close> whether the memory pool is alive. The session
  stands for all the backend holds.\<close>

record 's state =
  session :: 's
  timer :: "timeval option"
  sigint :: bool
  next_timeout :: timeval
  loopbreak :: bool
  pool :: bool

text \<open>The \<open>do ... while (timeout == 0)\<close> loop. \<open>sp_session_process_events\<close> is the
  primitive of the backend: it changes the session and reports the next timeout in
  milliseconds, a C \<open>int\<close>. The loop need not end.\<close>

partial_function (option) pump :: "('s \<Rightarrow> 's \<times> 32 word) \<Rightarrow> 's \<Rightarrow> ('s \<times> 32 word) option" where
  "pump sp_session_process_events s =
     (case sp_session_process_events s of
        (s', timeout) \<Rightarrow>
          if timeout = 0 then pump sp_session_process_events s' else Some (s', timeout))"

text \<open>C division and remainder truncate towards zero: \<open>sdiv\<close> and \<open>smod\<close>.\<close>

definition process_events :: "('s \<Rightarrow> 's \<times> 32 word) \<Rightarrow> 's state \<Rightarrow> 's state option" where
  "process_events sp_session_process_events st =
     (let st = st\<lparr>timer := None\<rparr>
      in case pump sp_session_process_events (session st) of
           None \<Rightarrow> None
         | Some (s', timeout) \<Rightarrow>
             (let tv = \<lparr>tv_sec = sint timeout sdiv 1000,
                        tv_usec = (sint timeout smod 1000) * 1000\<rparr>
              in Some (st\<lparr>session := s', next_timeout := tv, timer := Some tv\<rparr>)))"

text \<open>\<open>logged_out\<close>: the events are deleted, the loop is stopped and the pool is
  destroyed. Nothing of the session is touched.\<close>

definition logged_out :: "'s state \<Rightarrow> 's state" where
  "logged_out st = st\<lparr>timer := None, sigint := False, loopbreak := True, pool := False\<rparr>"

text \<open>The session after \<open>n\<close> calls of the primitive.\<close>

fun pumped :: "('s \<Rightarrow> 's \<times> 32 word) \<Rightarrow> nat \<Rightarrow> 's \<Rightarrow> 's" where
  "pumped pe 0 s = s"
| "pumped pe (Suc n) s = pumped pe n (fst (pe s))"

text \<open>The delay of a timer, in microseconds.\<close>

definition timeval_usec :: "timeval \<Rightarrow> int" where
  "timeval_usec tv = tv_sec tv * 1000000 + tv_usec tv"

section \<open>The diff engine\<close>

text \<open>Modelled from the spec: the edit script of the diff engine, whose code (behind
  \<open>diff.h\<close>) is not in \<open>server.c\<close>. An operation is \<open>Remove start count\<close> or
  \<open>Insert start items\<close>, each index valid in the sequence as it is when the operation
  is applied.\<close>

datatype 'a edit_op = Remove nat nat | Insert nat "'a list"

text \<open>Modelled from the spec: the length of a longest common subsequence, on which the
  diff engine is based.\<close>

fun lcs_length :: "'a list \<Rightarrow> 'a list \<Rightarrow> nat" where
  "lcs_length [] ys = 0"
| "lcs_length (x # xs) [] = 0"
| "lcs_length (x # xs) (y # ys) =
     (if x = y then Suc (lcs_length xs ys)
      else max (lcs_length xs (y # ys)) (lcs_length (x # xs) ys))"

text \<open>Modelled from the spec: one more item removed at \<open>i\<close> before a script; it joins
  a Remove at the same place, so that the script has the smallest number of operations
  for the alignment chosen.\<close>

fun remove_at :: "nat \<Rightarrow> 'a edit_op list \<Rightarrow> 'a edit_op list" where
  "remove_at i (Remove j n # ops) =
     (if j = i then Remove i (Suc n) # ops else Remove i 1 # Remove j n # ops)"
| "remove_at i ops = Remove i 1 # ops"

text \<open>Modelled from the spec: the same for an item inserted at \<open>i\<close>.\<close>

fun insert_at :: "nat \<Rightarrow> 'a \<Rightarrow> 'a edit_op list \<Rightarrow> 'a edit_op list" where
  "insert_at i y (Insert j ys # ops) =
     (if j = Suc i then Insert i (y # ys) # ops else Insert i [y] # Insert j ys # ops)"
| "insert_at i y ops = Insert i [y] # ops"

text \<open>Modelled from the spec: \<open>compute\<close>, the diff engine behind \<open>diff_playlist_tracks\<close>
  of \<open>diff.h\<close>, whose code is not in \<open>server.c\<close>. The spec asks for a script based on
  a longest common subsequence, with the earliest alignment preferred, a single Insert
  of all of \<open>desired\<close> for an empty \<open>current\<close>, a single Remove of all of \<open>current\<close> for
  an empty \<open>desired\<close>, and the empty script for equal sequences. \<open>compute_from i\<close>
  works on what is left of both sequences behind a common prefix of length \<open>i\<close>.\<close>

fun compute_from :: "nat \<Rightarrow> 'a list \<Rightarrow> 'a list \<Rightarrow> 'a edit_op list" where
  "compute_from i [] [] = []"
| "compute_from i [] (y # ys) = [Insert i (y # ys)]"
| "compute_from i (x # xs) [] = [Remove i (length (x # xs))]"
| "compute_from i (x # xs) (y # ys) =
     (if x = y then compute_from (Suc i) xs ys
      else if lcs_length (x # xs) ys \<le> lcs_length xs (y # ys)
      then remove_at i (compute_from i xs (y # ys))
      else insert_at i y (compute_from (Suc i) (x # xs) ys))"

text \<open>Modelled from the spec: \<open>compute(current, desired)\<close>.\<close>

definition compute :: "'a list \<Rightarrow> 'a list \<Rightarrow> 'a edit_op list" where
  "compute current desired = compute_from 0 current desired"

text \<open>Modelled from the spec: what an operation does to a sequence.\<close>

fun apply_op :: "'a edit_op \<Rightarrow> 'a list \<Rightarrow> 'a list" where
  "apply_op (Remove i n) xs = take i xs @ drop (i + n) xs"
| "apply_op (Insert i ys) xs = take i xs @ ys @ drop i xs"

text \<open>Modelled from the spec: the operations of a script are applied in order.\<close>

fun apply_script :: "'a edit_op list \<Rightarrow> 'a list \<Rightarrow> 'a list" where
  "apply_script [] xs = xs"
| "apply_script (e # es) xs = apply_script es (apply_op e xs)"

section \<open>Inputs the handlers reject, and the tracks they keep\<close>

text \<open>The index (or count) parameter of the query, as the handlers read it.\<close>

definition query_int :: "'d lib \<Rightarrow> evhttp_request \<Rightarrow> string \<Rightarrow> int option" where
  "query_int lib req key =
     (case evhttp_find_query lib (evhttp_request_get_uri req) key of
        None \<Rightarrow> None
      | Some f \<Rightarrow> sscanf_d f)"

text \<open>The entries of the JSON array in the body of a request; \<open>None\<close> when the body is
  missing, is not JSON, or is not an array.\<close>

definition body_items :: "'d lib \<Rightarrow> evhttp_request \<Rightarrow> json list option" where
  "body_items lib req =
     (if evhttp_request_get_input_buffer req = [] then None
      else (case json_loads lib (read_body (evhttp_request_get_input_buffer req)) of
              Inl text \<Rightarrow> None
            | Inr (JArray items) \<Rightarrow> Some items
            | Inr _ \<Rightarrow> None))"

text \<open>Rejected input of the three mutating handlers. For add: no numeral is read from
  the index (the parameter is missing or \<open>sscanf\<close> converts nothing), or the body is
  missing, is not JSON or is not an array. For remove: no numeral is read from the
  index, the index is negative, no numeral is read from the count, or the count is below
  1; the body plays no part. For patch: the body is missing, is not JSON or is not an
  array. A parameter that starts with a numeral, such as \<open>1x\<close>, is read as that
  numeral.\<close>

fun input_rejected :: "'d lib \<Rightarrow> handle_playlist_fn \<Rightarrow> evhttp_request \<Rightarrow> bool" where
  "input_rejected lib Put_playlist_add_tracks req =
     (query_int lib req ''index'' = None \<or> body_items lib req = None)"
| "input_rejected lib Put_playlist_remove_tracks req =
     (case query_int lib req ''index'' of
        None \<Rightarrow> True
      | Some index \<Rightarrow>
          index < 0 \<or>
          (case query_int lib req ''count'' of None \<Rightarrow> True | Some count \<Rightarrow> count < 1))"
| "input_rejected lib Put_playlist_patch req = (body_items lib req = None)"
| "input_rejected lib _ req = False"

text \<open>The track an entry of the array stands for: none unless the entry is a string that
  parses as a link of type track with a track behind it.\<close>

definition valid_track :: "'d lib \<Rightarrow> json \<Rightarrow> sp_track option" where
  "valid_track lib item =
     (case item of
        JString uri \<Rightarrow>
          (case sp_link_create_from_string lib uri of
             None \<Rightarrow> None
           | Some l \<Rightarrow> if sp_link_type l = SP_LINKTYPE_TRACK then sp_link_as_track l else None)
      | _ \<Rightarrow> None)"

definition valid_tracks :: "'d lib \<Rightarrow> json list \<Rightarrow> sp_track list" where
  "valid_tracks lib items = List.map_filter (valid_track lib) items"

text \<open>The two kinds of answers: a reply in the JSON envelope of \<open>send_reply\<close> whose
  payload is an object with a \<open>message\<close> member, and the error page of libevent.\<close>

fun json_message_reply :: "action \<Rightarrow> bool" where
  "json_message_reply (Evhttp_send_reply req code message (Json_dumps (JObject kvs))) =
     (''message'' \<in> set (map fst kvs))"
| "json_message_reply _ = False"

fun error_page :: "action \<Rightarrow> bool" where
  "error_page (Evhttp_send_error req code message) = True"
| "error_page _ = False"

section \<open>Runs of the server, and the registry along them\<close>

text \<open>The handlers that \<open>playlist_dispatch\<close> has called, oldest first, the calls of the
  mutation primitives, and the answers to a request, as the trace has them.\<close>

fun dispatched :: "action list \<Rightarrow> nat list" where
  "dispatched [] = []"
| "dispatched (Dispatched a # as) = a # dispatched as"
| "dispatched (_ # as) = dispatched as"

fun backend_calls :: "action list \<Rightarrow> backend_call list" where
  "backend_calls [] = []"
| "backend_calls (Backend c # as) = c # backend_calls as"
| "backend_calls (_ # as) = backend_calls as"

fun answer_to :: "evhttp_request \<Rightarrow> action \<Rightarrow> bool" where
  "answer_to req (Evhttp_send_reply r code message buf) = (r = req)"
| "answer_to req (Evhttp_send_error r code message) = (r = req)"
| "answer_to req _ = False"

definition answers :: "evhttp_request \<Rightarrow> action list \<Rightarrow> action list" where
  "answers req as = filter (answer_to req) as"

text \<open>The completion predicate of a registration: what its callback table tests on a
  notification before it dispatches. A state change qualifies when the playlist is
  loaded, an update in progress when it is done.\<close>

fun completion_predicate :: "sp_playlist_callbacks \<Rightarrow> notification \<Rightarrow> sp_playlist \<Rightarrow> bool" where
  "completion_predicate Playlist_state_changed_callbacks State_changed pl =
     sp_playlist_is_loaded pl"
| "completion_predicate Playlist_update_in_progress_callbacks (Update_in_progress done) pl = done"
| "completion_predicate _ _ pl = False"

text \<open>The world in which \<open>playlist_dispatch\<close> calls the callback of the handler \<open>h\<close> at
  \<open>a\<close>, registered for the playlist \<open>p\<close> with the table \<open>c\<close>: the registration has left
  the callback set.\<close>

definition detached :: "nat \<Rightarrow> sp_playlist_callbacks \<Rightarrow> nat \<Rightarrow> playlist_handler \<Rightarrow> world \<Rightarrow> world" where
  "detached p c a h w =
     w\<lparr>registered := remove1 (p, c, a) (registered w),
       handlers := (handlers w)(a \<mapsto> h\<lparr>playlist_callbacks := None\<rparr>),
       trace := trace w @ [Dispatched a]\<rparr>"

text \<open>What happens to the server: a request comes in, the backend notifies a playlist,
  or the backend changes the state of a playlist on its own (it loads, or another
  client changes it).\<close>

datatype event =
    Request evhttp_request
  | Notification nat notification
  | Backend_change nat sp_playlist

fun step :: "'d lib \<Rightarrow> event \<Rightarrow> world \<Rightarrow> world option" where
  "step lib (Request req) w = handle_request lib req w"
| "step lib (Notification p n) w = notify lib p n w"
| "step lib (Backend_change p pl) w = Some (w\<lparr>playlists := (playlists w)(p := pl)\<rparr>)"

fun run :: "'d lib \<Rightarrow> event list \<Rightarrow> world \<Rightarrow> world option" where
  "run lib [] w = Some w"
| "run lib (e # es) w = (case step lib e w of None \<Rightarrow> None | Some w' \<Rightarrow> run lib es w')"

text \<open>The address a registration was made with.\<close>

definition address :: "nat \<times> sp_playlist_callbacks \<times> nat \<Rightarrow> nat" where
  "address e = snd (snd e)"

text \<open>The registry is in order when no address is registered twice or registered after
  it was dispatched, every address in use is below the next one to be given, and every
  registered handler is allocated and holds the table it is registered with.\<close>

definition registry_ok :: "world \<Rightarrow> bool" where
  "registry_ok w =
     (distinct (map address (registered w) @ dispatched (trace w))
      \<and> (\<forall>a \<in> set (map address (registered w)) \<union> set (dispatched (trace w)).
            a < next_handler w)
      \<and> (\<forall>e \<in> set (registered w).
            \<exists>h. handlers w (address e) = Some h \<and> playlist_callbacks h = Some (fst (snd e))))"

text \<open>\<open>quiet w w'\<close>: from \<open>w\<close> to \<open>w'\<close> the registry is untouched and nothing was
  dispatched. \<open>extends w w'\<close>: nothing was dispatched, the handlers allocated before are
  untouched, and at most one registration was added, at the next address.\<close>

definition quiet :: "world \<Rightarrow> world \<Rightarrow> bool" where
  "quiet w w' =
     (registered w' = registered w \<and> handlers w' = handlers w
      \<and> next_handler w' = next_handler w
      \<and> dispatched (trace w') = dispatched (trace w))"

definition extends :: "world \<Rightarrow> world \<Rightarrow> bool" where
  "extends w w' =
     (dispatched (trace w') = dispatched (trace w)
      \<and> next_handler w \<le> next_handler w'
      \<and> (\<forall>b. b < next_handler w \<longrightarrow> handlers w' b = handlers w b)
      \<and> (registered w' = registered w
          \<or> (\<exists>q c h. registered w' = registered w @ [(q, c, next_handler w)]
                \<and> next_handler w < next_handler w'
                \<and> handlers w' (next_handler w) = Some h
                \<and> playlist_callbacks h = Some c)))"

section \<open>Reading the trace\<close>


text \<open>The JSON value a reply carries, if it carries one.\<close>

fun sent_json :: "action \<Rightarrow> json option" where
  "sent_json (Evhttp_send_reply req code message (Json_dumps j)) = Some j"
| "sent_json _ = None"

section \<open>Concrete inputs\<close>

definition example_playlist :: sp_playlist where
  "example_playlist =
     \<lparr>sp_playlist_link = ''spotify:user:u:playlist:p'',
      sp_playlist_name = ''Mix'',
      sp_playlist_owner = ''u'',
      sp_playlist_is_collaborative = False,
      sp_playlist_tracks = [Track ''spotify:track:a'', Track ''spotify:track:b''],
      sp_playlist_is_loaded = True,
      sp_playlist_has_pending_changes = False\<rparr>"

definition example_world :: world where
  "example_world =
     \<lparr>playlists = (\<lambda>p. example_playlist),
      registered = [],
      handlers = (\<lambda>a. None),
      next_handler = 0,
      trace = []\<rparr>"

definition example_get :: evhttp_request where
  "example_get =
     \<lparr>evhttp_request_get_command = EVHTTP_REQ_GET,
      evhttp_request_get_uri = ''/playlist/spotify:user:u:playlist:p'',
      evhttp_request_get_input_buffer = []\<rparr>"

text \<open>A backend that has immediate work for the first two calls and then asks to be
  called again in 1500 ms; the session counts the calls.\<close>

definition example_process_events :: "nat \<Rightarrow> nat \<times> 32 word" where
  "example_process_events s = (Suc s, if s < 2 then 0 else 1500)"

definition example_state :: "nat state" where
  "example_state =
     \<lparr>session = 0, timer = Some \<lparr>tv_sec = 0, tv_usec = 0\<rparr>, sigint = True,
      next_timeout = \<lparr>tv_sec = 0, tv_usec = 0\<rparr>, loopbreak = False, pool = True\<rparr>"

subsection \<open>A concrete backend\<close>

text \<open>Links: track links, album links and the link of the one playlist, at address 0.\<close>

definition example_link :: "string \<Rightarrow> sp_link option" where
  "example_link s =
     (if take 14 s = ''spotify:track:''
      then Some \<lparr>sp_link_type = SP_LINKTYPE_TRACK, sp_link_as_track = Some (Track s),
                  sp_playlist_create = None\<rparr>
      else if take 14 s = ''spotify:album:''
      then Some \<lparr>sp_link_type = SP_LINKTYPE_ALBUM, sp_link_as_track = None,
                  sp_playlist_create = None\<rparr>
      else if take 25 s = ''spotify:user:u:playlist:p''
      then Some \<lparr>sp_link_type = SP_LINKTYPE_PLAYLIST, sp_link_as_track = None,
                  sp_playlist_create = Some 0\<rparr>
      else None)"

text \<open>The query of a URI: the fields behind \<open>?\<close>, separated by \<open>&\<close>, each
  \<open>key=value\<close>.\<close>

fun split_on :: "char \<Rightarrow> string \<Rightarrow> string \<Rightarrow> string list" where
  "split_on d [] cur = [cur]"
| "split_on d (c # cs) cur = (if c = d then cur # split_on d cs [] else split_on d cs (cur @ [c]))"

definition example_find_query :: "string \<Rightarrow> string \<Rightarrow> string option" where
  "example_find_query uri key =
     (let q = drop 1 (dropWhile (\<lambda>c. c \<noteq> CHR ''?'') uri);
          fields = map (\<lambda>f. (takeWhile (\<lambda>c. c \<noteq> CHR ''='') f,
                              drop 1 (dropWhile (\<lambda>c. c \<noteq> CHR ''='') f)))
                       (split_on CHR ''&'' q [])
      in map_of fields key)"

text \<open>Request bodies, and what the JSON parser answers on them. \<open>body_mixed\<close> is the
  text of an array of a track link, a number, an album link and something that is no
  link; \<open>body_desired\<close> of the two tracks a and c; \<open>body_no_tracks\<close> of a number
  and an album link.\<close>

definition quoted :: "string \<Rightarrow> string" where
  "quoted s = CHR 0x22 # s @ [CHR 0x22]"

definition body_mixed :: string where
  "body_mixed = ''['' @ quoted ''spotify:track:c'' @ '',7,'' @ quoted ''spotify:album:x''
                  @ '','' @ quoted ''hello'' @ '']''"

definition body_desired :: string where
  "body_desired = ''['' @ quoted ''spotify:track:a'' @ '','' @ quoted ''spotify:track:c'' @ '']''"

definition body_no_tracks :: string where
  "body_no_tracks = ''[7,'' @ quoted ''spotify:album:x'' @ '']''"

definition example_json_loads :: "string \<Rightarrow> string + json" where
  "example_json_loads body =
     (if body = ''[]'' then Inr (JArray [])
      else if body = ''{}'' then Inr (JObject [])
      else if body = body_mixed
      then Inr (JArray [JString ''spotify:track:c'', JInteger 7, JString ''spotify:album:x'',
                        JString ''hello''])
      else if body = body_desired
      then Inr (JArray [JString ''spotify:track:a'', JString ''spotify:track:c''])
      else if body = body_no_tracks
      then Inr (JArray [JInteger 7, JString ''spotify:album:x''])
      else Inl ''unable to decode'')"

text \<open>The mutation primitives: the tracks change at once and the change is pending;
  an index out of range is refused.\<close>

definition example_add_tracks :: "sp_playlist \<Rightarrow> sp_track list \<Rightarrow> int \<Rightarrow> sp_error \<times> sp_playlist" where
  "example_add_tracks pl ts position =
     (if position < 0 \<or> int (length (sp_playlist_tracks pl)) < position
      then (SP_ERROR_INVALID_INDATA, pl)
      else (SP_ERROR_OK,
            pl\<lparr>sp_playlist_tracks :=
                  take (nat position) (sp_playlist_tracks pl) @ ts
                    @ drop (nat position) (sp_playlist_tracks pl),
               sp_playlist_has_pending_changes := True\<rparr>))"

definition example_remove_tracks :: "sp_playlist \<Rightarrow> int list \<Rightarrow> sp_error \<times> sp_playlist" where
  "example_remove_tracks pl idxs =
     (if list_ex (\<lambda>i. i < 0 \<or> int (length (sp_playlist_tracks pl)) \<le> i) idxs
      then (SP_ERROR_INVALID_INDATA, pl)
      else (SP_ERROR_OK,
            pl\<lparr>sp_playlist_tracks :=
                  map snd (filter (\<lambda>it. int (fst it) \<notin> set idxs)
                             (enumerate 0 (sp_playlist_tracks pl))),
               sp_playlist_has_pending_changes := True\<rparr>))"

definition example_error_message :: "sp_error \<Rightarrow> string" where
  "example_error_message e =
     (case e of
        SP_ERROR_OK \<Rightarrow> ''No error''
      | SP_ERROR_INVALID_INDATA \<Rightarrow> ''Invalid input''
      | SP_ERROR_PERMISSION_DENIED \<Rightarrow> ''Permission denied''
      | SP_ERROR_OTHER n \<Rightarrow> ''Other error'')"

text \<open>Modelled from the spec: the applicator behind \<open>diff_playlist_tracks_apply\<close> of
  \<open>diff.h\<close>, whose code is not in \<open>server.c\<close>. It walks the edit script in order,
  turns each operation into the call of the matching mutation primitive, and stops at
  the first call that fails.\<close>

fun example_apply ::
  "sp_track edit_op list \<Rightarrow> nat \<Rightarrow> sp_playlist \<Rightarrow> string option \<times> sp_playlist \<times> backend_call list" where
  "example_apply [] p pl = (None, pl, [])"
| "example_apply (Remove i n # ops) p pl =
     (let idxs = map int [i ..< i + n]
      in case example_remove_tracks pl idxs of
           (err, pl') \<Rightarrow>
             if err \<noteq> SP_ERROR_OK
             then (Some ''remove failed'', pl', [Sp_playlist_remove_tracks p idxs])
             else (case example_apply ops p pl' of
                     (e, pl'', calls) \<Rightarrow> (e, pl'', Sp_playlist_remove_tracks p idxs # calls)))"
| "example_apply (Insert i ts # ops) p pl =
     (case example_add_tracks pl ts (int i) of
        (err, pl') \<Rightarrow>
          if err \<noteq> SP_ERROR_OK
          then (Some ''insert failed'', pl', [Sp_playlist_add_tracks p ts (int i)])
          else (case example_apply ops p pl' of
                  (e, pl'', calls) \<Rightarrow> (e, pl'', Sp_playlist_add_tracks p ts (int i) # calls)))"

definition example_lib :: "sp_track edit_op list lib" where
  "example_lib =
     \<lparr>evhttp_decode_uri = (\<lambda>s. s),
      evhttp_find_query = example_find_query,
      json_loads = example_json_loads,
      sp_link_create_from_string = example_link,
      sp_playlist_add_tracks = example_add_tracks,
      sp_playlist_remove_tracks = example_remove_tracks,
      sp_error_message = example_error_message,
      diff_playlist_tracks = (\<lambda>pl ts. Inr (compute (sp_playlist_tracks pl) ts)),
      diff_playlist_tracks_apply = (\<lambda>d p pl ts. example_apply d p pl)\<rparr>"

subsection \<open>Concrete requests\<close>

definition example_delete :: evhttp_request where
  "example_delete =
     \<lparr>evhttp_request_get_command = EVHTTP_REQ_DELETE,
      evhttp_request_get_uri = ''/playlist/spotify:user:u:playlist:p'',
      evhttp_request_get_input_buffer = []\<rparr>"





definition example_patch :: evhttp_request where
  "example_patch =
     \<lparr>evhttp_request_get_command = EVHTTP_REQ_PUT,
      evhttp_request_get_uri = ''/playlist/spotify:user:u:playlist:p/patch'',
      evhttp_request_get_input_buffer = body_desired\<rparr>"


definition example_bad_route :: evhttp_request where
  "example_bad_route =
     \<lparr>evhttp_request_get_command = EVHTTP_REQ_GET,
      evhttp_request_get_uri = ''/album/spotify:album:x'',
      evhttp_request_get_input_buffer = []\<rparr>"

definition example_bogus_action :: evhttp_request where
  "example_bogus_action =
     \<lparr>evhttp_request_get_command = EVHTTP_REQ_GET,
      evhttp_request_get_uri = ''/playlist/spotify:user:u:playlist:p/shuffle'',
      evhttp_request_get_input_buffer = []\<rparr>"

text \<open>The example world with the playlist not loaded yet.\<close>

definition example_unloaded :: world where
  "example_unloaded =
     example_world\<lparr>playlists := (\<lambda>p. example_playlist\<lparr>sp_playlist_is_loaded := False\<rparr>)\<rparr>"

text \<open>The world after the Get request came in for the playlist that is not loaded: the
  request is parked at address 0 on the state changes of the playlist.\<close>

definition example_waiting :: world where
  "example_waiting =
     \<lparr>playlists = (\<lambda>p. example_playlist\<lparr>sp_playlist_is_loaded := False\<rparr>),
      registered = [(0, Playlist_state_changed_callbacks, 0)],
      handlers = (\<lambda>a. None)(0 \<mapsto>
        \<lparr>playlist_callbacks = Some Playlist_state_changed_callbacks, request = example_get,
         callback = Get_playlist, userdata = Userdata_NULL\<rparr>),
      next_handler = 1,
      trace = [Evhttp_add_header example_get ''Server'' ''johan@liesen.se/spotify-api-server'']\<rparr>"



text \<open>The world with the Get request parked, once the backend has loaded the
  playlist.\<close>

definition example_parked :: world where
  "example_parked =
     example_waiting\<lparr>playlists := (playlists example_waiting)(0 := example_playlist)\<rparr>"

text \<open>The server with the request waiting, before the session ends.\<close>

definition example_server :: "world state" where
  "example_server =
     \<lparr>session = example_waiting, timer = Some \<lparr>tv_sec = 1, tv_usec = 0\<rparr>, sigint = True,
      next_timeout = \<lparr>tv_sec = 1, tv_usec = 0\<rparr>, loopbreak = False, pool = True\<rparr>"

text \<open>The playlist after the Patch of \<open>example_patch\<close> was applied and another client
  has put a track x behind the first track.\<close>

definition example_mutated :: sp_playlist where
  "example_mutated =
     example_playlist
       \<lparr>sp_playlist_tracks :=
          [Track ''spotify:track:a'', Track ''spotify:track:x'', Track ''spotify:track:c''],
        sp_playlist_has_pending_changes := True\<rparr>"

text \<open>The world after the parked Get request was served.\<close>

definition example_served :: world where
  "example_served =
     example_parked
       \<lparr>registered := [],
        handlers := (\<lambda>a. None),
        trace := trace example_parked @
          [Dispatched 0,
           Evhttp_add_header example_get ''Content-type'' ''application/json; charset=UTF-8'',
           Evhttp_send_reply example_get 200 ''OK'' (Json_dumps (playlist_json example_playlist))]\<rparr>"

text \<open>The world after the Patch request, the change by the other client and the
  notification that the update is done.\<close>

definition example_patched :: world where
  "example_patched =
     example_world
       \<lparr>playlists := (playlists example_world)(0 := example_mutated),
        next_handler := 1,
        trace :=
          [Evhttp_add_header example_patch ''Server'' ''johan@liesen.se/spotify-api-server'',
           Backend (Sp_playlist_remove_tracks 0 [1]),
           Backend (Sp_playlist_add_tracks 0 [Track ''spotify:track:c''] 1),
           Dispatched 0,
           Evhttp_add_header example_patch ''Content-type'' ''application/json; charset=UTF-8'',
           Evhttp_send_reply example_patch 200 ''OK''
             (Json_dumps
                (JObject
                   [(''uri'', JString ''spotify:user:u:playlist:p''),
                    (''title'', JString ''Mix''),
                    (''creator'', JString ''u''),
                    (''collaborative'', JFalse),
                    (''tracks'',
                     JArray [JString ''spotify:track:a'', JString ''spotify:track:x'',
                             JString ''spotify:track:c''])]))]\<rparr>"

section \<open>Properties\<close>

lemma append_tracks_map:
  "append_tracks ts arr = arr @ map (\<lambda>t. JString (sp_link_as_string (sp_link_create_from_track t) 64)) ts"
  by (induction ts arbitrary: arr) simp_all

lemma playlist_json_eq:
  "playlist_json pl =
     JObject
       [(''uri'', JString (take 63 (sp_playlist_link pl))),
        (''title'', JString (sp_playlist_name pl)),
        (''creator'', JString (sp_playlist_owner pl)),
        (''collaborative'', if sp_playlist_is_collaborative pl then JTrue else JFalse),
        (''tracks'', JArray (map (\<lambda>t. JString (take 63 (sp_link_create_from_track t)))
                               (sp_playlist_tracks pl)))]"
  by (simp add: playlist_json_def append_tracks_map sp_link_as_string_def)


subsection \<open>C7: the payload of Get\<close>




subsection \<open>C9: the event pump\<close>

lemma pump_steps:
  "(\<forall>k<n. snd (pe (pumped pe k s)) = 0) \<Longrightarrow> snd (pe (pumped pe n s)) \<noteq> 0
   \<Longrightarrow> pump pe s = Some (pe (pumped pe n s))"
proof (induction n arbitrary: s)
  case 0
  obtain s' t where ps: "pe s = (s', t)" by (cases "pe s")
  with 0 have "t \<noteq> 0" by simp
  with ps show ?case by (subst pump.simps) simp
next
  case (Suc n)
  obtain s' t where ps: "pe s = (s', t)" by (cases "pe s")
  have "snd (pe (pumped pe 0 s)) = 0" using Suc.prems(1) by blast
  with ps have z: "t = 0" by simp
  have "pump pe s' = Some (pe (pumped pe n s'))"
  proof (rule Suc.IH)
    show "\<forall>k<n. snd (pe (pumped pe k s')) = 0"
    proof (intro allI impI)
      fix k assume "k < n"
      then have "Suc k < Suc n" by simp
      then have "snd (pe (pumped pe (Suc k) s)) = 0" using Suc.prems(1) by blast
      with ps show "snd (pe (pumped pe k s')) = 0" by simp
    qed
    show "snd (pe (pumped pe n s')) \<noteq> 0" using Suc.prems(2) ps by simp
  qed
  with z ps show ?case by (subst pump.simps) simp
qed

text \<open>When the loop returns, the backend has reported a timeout other than 0 at
  some call, and 0 at every call before.\<close>

lemma pump_SomeD:
  assumes a: "pump pe s = Some r"
  shows "\<exists>n. (\<forall>k<n. snd (pe (pumped pe k s)) = 0) \<and> snd r \<noteq> 0 \<and> r = pe (pumped pe n s)"
proof (rule pump.raw_induct
    [where P = "\<lambda>pe s r. \<exists>n. (\<forall>k<n. snd (pe (pumped pe k s)) = 0) \<and> snd r \<noteq> 0
                           \<and> r = pe (pumped pe n s)", OF _ a])
  fix f and pe :: "'a \<Rightarrow> 'a \<times> 32 word" and s r
  assume IH: "\<And>pe s r. f pe s = Some r \<Longrightarrow>
      \<exists>n. (\<forall>k<n. snd (pe (pumped pe k s)) = 0) \<and> snd r \<noteq> 0 \<and> r = pe (pumped pe n s)"
    and eq: "(case pe s of (s', timeout) \<Rightarrow> if timeout = 0 then f pe s' else Some (s', timeout))
             = Some r"
  obtain s' t where ps: "pe s = (s', t)" by (cases "pe s")
  show "\<exists>n. (\<forall>k<n. snd (pe (pumped pe k s)) = 0) \<and> snd r \<noteq> 0 \<and> r = pe (pumped pe n s)"
  proof (cases "t = 0")
    case True
    with eq ps have "f pe s' = Some r" by simp
    from IH [OF this] obtain n where
      n: "(\<forall>k<n. snd (pe (pumped pe k s')) = 0) \<and> snd r \<noteq> 0 \<and> r = pe (pumped pe n s')" ..
    have a: "\<forall>k<Suc n. snd (pe (pumped pe k s)) = 0"
    proof (intro allI impI)
      fix k assume k: "k < Suc n"
      show "snd (pe (pumped pe k s)) = 0"
      proof (cases k)
        case 0
        with ps True show ?thesis by simp
      next
        case (Suc k')
        with k have "k' < n" by simp
        with n have "snd (pe (pumped pe k' s')) = 0" by blast
        with Suc ps show ?thesis by simp
      qed
    qed
    have b: "r = pe (pumped pe (Suc n) s)" using n ps by simp
    have c: "snd r \<noteq> 0" using n by blast
    from a b c show ?thesis by (intro exI [of _ "Suc n"] conjI)
  next
    case False
    with eq ps have "r = pe s" by simp
    with False ps have "(\<forall>k<0. snd (pe (pumped pe k s)) = 0) \<and> snd r \<noteq> 0 \<and> r = pe (pumped pe 0 s)"
      by simp
    then show ?thesis by (intro exI [of _ 0])
  qed
qed

lemma pumped_Suc: "pumped pe (Suc n) s = fst (pe (pumped pe n s))"
  by (induction n arbitrary: s) simp_all

lemma timeval_exact: "(t sdiv 1000) * 1000000 + (t smod 1000) * 1000 = (t::int) * 1000"
proof -
  have "t sdiv 1000 * 1000 + t smod 1000 = t" by (rule sdiv_mult_smod_eq)
  then have "(t sdiv 1000 * 1000 + t smod 1000) * 1000 = t * 1000" by simp
  then show ?thesis by (simp add: algebra_simps)
qed

text \<open>C9: when the timer fires and the backend reports the timeout 0 for the first
  \<open>n\<close> calls of the process-events primitive and a timeout \<open>t \<noteq> 0\<close> at the next call,
  \<open>process_events\<close> returns after exactly these \<open>n + 1\<close> calls, and the timer is
  pending again with a delay of exactly \<open>t\<close> milliseconds (the delay, in microseconds,
  is \<open>1000 * t\<close>).\<close>

theorem process_events_drains:
  assumes "\<forall>k<n. snd (pe (pumped pe k (session st))) = 0"
    and "snd (pe (pumped pe n (session st))) = t"
    and "t \<noteq> 0"
  shows "\<exists>st' tv. process_events pe st = Some st'
           \<and> session st' = pumped pe (Suc n) (session st)
           \<and> timer st' = Some tv \<and> next_timeout st' = tv
           \<and> timeval_usec tv = sint t * 1000"
proof -
  have "pump pe (session st) = Some (pe (pumped pe n (session st)))"
    using assms by (intro pump_steps) simp_all
  then show ?thesis
    using assms(2)
    by (cases "pe (pumped pe n (session st))")
       (simp add: process_events_def Let_def timeval_usec_def timeval_exact pumped_Suc del: pumped.simps)
qed

theorem process_events_drains_witness:
  "\<exists>st' tv. process_events example_process_events example_state = Some st'
      \<and> session st' = 3
      \<and> timer st' = Some tv \<and> next_timeout st' = tv
      \<and> timeval_usec tv = 1500000"
proof -
  have a: "\<forall>k<2. snd (example_process_events (pumped example_process_events k (session example_state))) = 0"
  proof (intro allI impI)
    fix k :: nat assume "k < 2"
    then have "k = 0 \<or> k = 1" by arith
    then show "snd (example_process_events (pumped example_process_events k (session example_state))) = 0"
      by (auto simp: example_process_events_def example_state_def)
  qed
  have b: "snd (example_process_events (pumped example_process_events 2 (session example_state))) = 1500"
    by (simp add: example_process_events_def example_state_def numeral_2_eq_2)
  have c: "(1500 :: 32 word) \<noteq> 0" by simp
  have d: "pumped example_process_events (Suc 2) (session example_state) = 3"
    by (simp add: example_process_events_def example_state_def numeral_2_eq_2)
  show ?thesis
    using process_events_drains [OF a b c] d by simp
qed

subsection \<open>Replies, as changes of the world\<close>

lemma send_error_eq:
  "send_error req code message w =
     w\<lparr>trace := trace w @
          [Evhttp_add_header req ''Content-type'' ''application/json; charset=UTF-8'',
           Evhttp_send_reply req code message
             (Json_dumps (JObject [(''message'', JString message)]))]\<rparr>"
  by (simp add: send_error_def send_reply_def do_action_def)

lemma send_reply_eq:
  "send_reply req code message buf w =
     w\<lparr>trace := trace w @
          [Evhttp_add_header req ''Content-type'' ''application/json; charset=UTF-8'',
           Evhttp_send_reply req code message buf]\<rparr>"
  by (simp add: send_reply_def do_action_def)

subsection \<open>Rejected input in the handlers\<close>

lemma add_tracks_rejected:
  assumes "input_rejected lib Put_playlist_add_tracks req"
  shows "\<exists>message. put_playlist_add_tracks lib p req w = send_error req HTTP_BADREQUEST message w"
proof (cases "query_int lib req ''index''")
  case None
  then show ?thesis
    by (auto simp: put_playlist_add_tracks_def query_int_def Let_def)
next
  case (Some index)
  with assms have b: "body_items lib req = None" by simp
  from Some have q: "(case evhttp_find_query lib (evhttp_request_get_uri req) ''index'' of
           None \<Rightarrow> None | Some f \<Rightarrow> sscanf_d f) = Some index"
    by (simp add: query_int_def)
  show ?thesis
  proof (cases "evhttp_request_get_input_buffer req = []")
    case True
    then show ?thesis using q by (auto simp: put_playlist_add_tracks_def Let_def)
  next
    case False
    with b show ?thesis using q
      by (auto simp: put_playlist_add_tracks_def Let_def body_items_def
               split: sum.splits json.splits)
  qed
qed

lemma remove_tracks_rejected:
  assumes "input_rejected lib Put_playlist_remove_tracks req"
  shows "\<exists>message. put_playlist_remove_tracks lib p req w = send_error req HTTP_BADREQUEST message w"
  using assms
  by (auto simp: put_playlist_remove_tracks_def query_int_def Let_def split: option.splits)

lemma patch_rejected:
  assumes "input_rejected lib Put_playlist_patch req"
  shows "\<exists>message. put_playlist_patch lib p req w = send_error req HTTP_BADREQUEST message w"
proof (cases "evhttp_request_get_input_buffer req = []")
  case True
  then show ?thesis by (auto simp: put_playlist_patch_def Let_def)
next
  case False
  with assms show ?thesis
    by (auto simp: put_playlist_patch_def Let_def body_items_def split: sum.splits json.splits)
qed


subsection \<open>C10: entries of the array that are no tracks\<close>

lemma read_tracks_valid:
  "read_tracks (sp_link_create_from_string lib) items acc = acc @ valid_tracks lib items"
proof (induction items arbitrary: acc)
  case Nil
  then show ?case by (simp add: valid_tracks_def List.map_filter_simps)
next
  case (Cons item items)
  then show ?case
    by (cases item)
       (simp_all add: valid_tracks_def valid_track_def List.map_filter_simps split: option.splits)
qed

lemma body_itemsD:
  "body_items lib req = Some items \<Longrightarrow>
     evhttp_request_get_input_buffer req \<noteq> []
     \<and> json_loads lib (read_body (evhttp_request_get_input_buffer req)) = Inr (JArray items)"
  by (auto simp: body_items_def split: if_splits sum.splits json.splits)

lemma patch_accepted:
  assumes "body_items lib req = Some items"
  shows "put_playlist_patch lib p req w =
           (if items = [] then send_reply req HTTP_OK ''OK'' Evbuffer_new w
            else if valid_tracks lib items = []
            then send_error req HTTP_BADREQUEST ''No valid tracks'' w
            else apply_diff lib p req (valid_tracks lib items) w)"
  using body_itemsD [OF assms]
  by (simp add: put_playlist_patch_def Let_def read_tracks_valid)

lemma add_tracks_accepted:
  assumes "body_items lib req = Some items" and "query_int lib req ''index'' = Some index"
  shows "put_playlist_add_tracks lib p req w =
           (if items = [] then send_reply req HTTP_OK ''OK'' Evbuffer_new w
            else if valid_tracks lib items = []
            then send_error req HTTP_BADREQUEST ''No valid tracks'' w
            else (case backend_add_tracks lib p (valid_tracks lib items) index
                         (snd (register_playlist_callbacks p req Get_playlist
                                 Playlist_update_in_progress_callbacks Userdata_NULL w)) of
                    (err, w') \<Rightarrow>
                      if err \<noteq> SP_ERROR_OK
                      then unregister_and_fail lib p req (next_handler w) err w'
                      else w'))"
proof -
  from assms(2) have q: "(case evhttp_find_query lib (evhttp_request_get_uri req) ''index'' of
           None \<Rightarrow> None | Some f \<Rightarrow> sscanf_d f) = Some index"
    by (simp add: query_int_def)
  show ?thesis
    using body_itemsD [OF assms(1)] q
    by (simp add: put_playlist_add_tracks_def Let_def read_tracks_valid
          register_playlist_callbacks_def split: prod.splits)
qed






subsection \<open>C8: the error answers\<close>

text \<open>What \<open>send_error\<close> sends is a reply in the JSON envelope, with a message.\<close>

lemma send_error_json_message:
  "json_message_reply (last (trace (send_error req code message w)))"
  by (simp add: send_error_eq)

text \<open>C8 at three requests: a \<open>DELETE\<close> (a method the server does not know), a \<open>GET\<close>
  of a path that does not start with \<open>playlist\<close> (a bad route), and a \<open>GET\<close> with an
  action the server does not have. Each is answered through \<open>evhttp_send_error\<close>, the
  error page of libevent, with status 501, 400 and 500: there is no \<open>Content-type\<close>
  header of the JSON envelope and no JSON object with a \<open>message\<close> member.\<close>

theorem error_page_paths:
  "handle_request example_lib example_delete example_world =
     Some (example_world\<lparr>trace :=
       [Evhttp_add_header example_delete ''Server'' ''johan@liesen.se/spotify-api-server'',
        Evhttp_send_error example_delete 501 ''Not Implemented'']\<rparr>)
   \<and> handle_request example_lib example_bad_route example_world =
     Some (example_world\<lparr>trace :=
       [Evhttp_add_header example_bad_route ''Server'' ''johan@liesen.se/spotify-api-server'',
        Evhttp_send_error example_bad_route 400 ''Bad Request'']\<rparr>)
   \<and> handle_request example_lib example_bogus_action example_world =
     Some (example_world\<lparr>trace :=
       [Evhttp_add_header example_bogus_action ''Server'' ''johan@liesen.se/spotify-api-server'',
        Evhttp_send_error example_bogus_action 500 ''Not Implemented'']\<rparr>)"
proof (intro conjI)
  show "handle_request example_lib example_delete example_world =
     Some (example_world\<lparr>trace :=
       [Evhttp_add_header example_delete ''Server'' ''johan@liesen.se/spotify-api-server'',
        Evhttp_send_error example_delete 501 ''Not Implemented'']\<rparr>)"
    by (simp add: handle_request_def Let_def do_action_def example_delete_def example_world_def)
  show "handle_request example_lib example_bad_route example_world =
     Some (example_world\<lparr>trace :=
       [Evhttp_add_header example_bad_route ''Server'' ''johan@liesen.se/spotify-api-server'',
        Evhttp_send_error example_bad_route 400 ''Bad Request'']\<rparr>)"
    by (simp add: handle_request_def Let_def do_action_def example_bad_route_def
          example_world_def example_lib_def strtok_def strncmp_eq_def)
  show "handle_request example_lib example_bogus_action example_world =
     Some (example_world\<lparr>trace :=
       [Evhttp_add_header example_bogus_action ''Server'' ''johan@liesen.se/spotify-api-server'',
        Evhttp_send_error example_bogus_action 500 ''Not Implemented'']\<rparr>)"
    by (simp add: handle_request_def Let_def do_action_def example_bogus_action_def
          example_world_def example_lib_def strtok_def strncmp_eq_def example_link_def
          select_callback_def dispatch_request_def example_playlist_def not_implemented_def)
qed

subsection \<open>C3: the diff engine at its edges, and Patch with an empty array\<close>

text \<open>The modelled script is an edit script: applied to the current sequence, it gives
  the desired one.\<close>

lemma apply_remove_at:
  "i \<le> length zs \<Longrightarrow> apply_script (remove_at i ops) zs = apply_script ops (apply_op (Remove i 1) zs)"
proof (cases ops)
  case Nil
  then show ?thesis by simp
next
  case (Cons e es)
  assume i: "i \<le> length zs"
  show ?thesis
  proof (cases e)
    case (Remove j n)
    have "take i zs @ drop (Suc (i + n)) zs
        = take i (take i zs @ drop (Suc i) zs) @ drop (i + n) (take i zs @ drop (Suc i) zs)"
      using i by (simp add: min_absorb2 ac_simps)
    with Cons Remove show ?thesis by simp
  next
    case (Insert j ys)
    with Cons show ?thesis by simp
  qed
qed

lemma apply_insert_at:
  "i \<le> length zs \<Longrightarrow> apply_script (insert_at i y ops) zs = apply_script ops (apply_op (Insert i [y]) zs)"
proof (cases ops)
  case Nil
  then show ?thesis by simp
next
  case (Cons e es)
  assume i: "i \<le> length zs"
  show ?thesis
  proof (cases e)
    case (Remove j n)
    with Cons show ?thesis by simp
  next
    case (Insert j ys)
    have "take i zs @ y # ys @ drop i zs
        = take (Suc i) (take i zs @ y # drop i zs) @ ys @ drop (Suc i) (take i zs @ y # drop i zs)"
      using i by (simp add: min_absorb2 ac_simps)
    with Cons Insert show ?thesis by simp
  qed
qed

lemma apply_compute_from:
  "length pre = i \<Longrightarrow> apply_script (compute_from i xs ys) (pre @ xs) = pre @ ys"
proof (induction i xs ys arbitrary: pre rule: compute_from.induct)
  case (1 i)
  then show ?case by simp
next
  case (2 i y ys)
  then show ?case by simp
next
  case (3 i x xs)
  then show ?case by simp
next
  case (4 i x xs y ys)
  show ?case
  proof (cases "x = y")
    case True
    have "apply_script (compute_from (Suc i) xs ys) ((pre @ [x]) @ xs) = (pre @ [x]) @ ys"
      by (rule "4.IH"(1) [OF True]) (simp add: "4.prems")
    with True show ?thesis by simp
  next
    case False
    show ?thesis
    proof (cases "lcs_length (x # xs) ys \<le> lcs_length xs (y # ys)")
      case True
      have "apply_script (compute_from i xs (y # ys)) (pre @ xs) = pre @ y # ys"
        by (rule "4.IH"(2) [OF False True "4.prems"])
      moreover have "apply_op (Remove i 1) (pre @ x # xs) = pre @ xs"
        using "4.prems" by simp
      ultimately show ?thesis
        using False True "4.prems" by (simp add: apply_remove_at)
    next
      case le: False
      have "apply_script (compute_from (Suc i) (x # xs) ys) ((pre @ [y]) @ x # xs) = (pre @ [y]) @ ys"
        by (rule "4.IH"(3) [OF False le]) (simp add: "4.prems")
      moreover have "apply_op (Insert i [y]) (pre @ x # xs) = (pre @ [y]) @ x # xs"
        using "4.prems" by simp
      ultimately show ?thesis
        using False le "4.prems" by (simp add: apply_insert_at)
    qed
  qed
qed

lemma apply_compute: "apply_script (compute xs ys) xs = ys"
  using apply_compute_from [of "[]" 0 xs ys] by (simp add: compute_def)






subsection \<open>What a handler does to the registry\<close>

lemma dispatched_append: "dispatched (xs @ ys) = dispatched xs @ dispatched ys"
  by (induction xs rule: dispatched.induct) simp_all

lemma backend_calls_append: "backend_calls (xs @ ys) = backend_calls xs @ backend_calls ys"
  by (induction xs rule: backend_calls.induct) simp_all

lemma backend_calls_map: "backend_calls (map Backend cs) = cs"
  by (induction cs) simp_all

lemma dispatched_map_Backend: "dispatched (map Backend cs) = []"
  by (induction cs) simp_all

lemma quiet_refl: "quiet w w"
  by (simp add: quiet_def)

lemma quiet_trans: "quiet w w1 \<Longrightarrow> quiet w1 w2 \<Longrightarrow> quiet w w2"
  by (simp add: quiet_def)

lemma quiet_send_reply: "quiet w (send_reply req code message buf w)"
  by (simp add: quiet_def send_reply_eq dispatched_append)

lemma quiet_send_error: "quiet w (send_error req code message w)"
  by (simp add: quiet_def send_error_eq dispatched_append)

lemma quiet_get_playlist: "quiet w (get_playlist p req w)"
  by (simp add: get_playlist_def quiet_send_reply)

lemma quiet_not_implemented: "quiet w (not_implemented req w)"
  by (simp add: quiet_def not_implemented_def do_action_def dispatched_append)

lemma quiet_extends: "quiet w w' \<Longrightarrow> extends w w'"
  by (simp add: quiet_def extends_def)

lemma quiet_then_extends: "quiet w w1 \<Longrightarrow> extends w1 w2 \<Longrightarrow> extends w w2"
  by (simp add: quiet_def extends_def)

lemma extends_then_quiet: "extends w w1 \<Longrightarrow> quiet w1 w2 \<Longrightarrow> extends w w2"
  by (simp add: quiet_def extends_def)

lemma extends_register:
  "extends w (snd (register_playlist_callbacks p req f c ud w))"
  by (simp add: extends_def register_playlist_callbacks_def Let_def)

lemma quiet_backend_add:
  "quiet w (snd (backend_add_tracks lib p ts i w))"
  by (simp add: quiet_def backend_add_tracks_def do_action_def dispatched_append
        split: prod.splits)

lemma quiet_backend_remove:
  "quiet w (snd (backend_remove_tracks lib p ts w))"
  by (simp add: quiet_def backend_remove_tracks_def do_action_def dispatched_append
        split: prod.splits)

text \<open>A mutation primitive called right after a registration, then failing.\<close>

lemma extends_unregister_and_fail:
  assumes fresh: "\<forall>e \<in> set (registered w). address e \<noteq> next_handler w"
    and q: "quiet (snd (register_playlist_callbacks p req f c ud w)) w1"
  shows "extends w (unregister_and_fail lib p req (next_handler w) err w1)"
proof -
  let ?e = "(p, c, next_handler w)"
  have nin: "?e \<notin> set (registered w)"
    using fresh by (auto simp: address_def)
  have r: "registered w1 = registered w @ [?e]"
    and h: "handlers w1 = (handlers w)(next_handler w \<mapsto>
              \<lparr>playlist_callbacks = Some c, request = req, callback = f, userdata = ud\<rparr>)"
    and n: "next_handler w1 = Suc (next_handler w)"
    and d: "dispatched (trace w1) = dispatched (trace w)"
    using q by (simp_all add: quiet_def register_playlist_callbacks_def Let_def)
  have rm: "remove1 ?e (registered w @ [?e]) = registered w"
    using nin by (simp add: remove1_append)
  show ?thesis
    by (simp add: extends_def unregister_and_fail_def Let_def h r n d rm
          sp_playlist_remove_callbacks_def free_def send_error_sp_def send_error_eq
          dispatched_append)
qed

lemma remove_tracks_accepted:
  assumes "query_int lib req ''index'' = Some index" and "\<not> index < 0"
    and "query_int lib req ''count'' = Some count" and "\<not> count < 1"
  shows "put_playlist_remove_tracks lib p req w =
           (case backend_remove_tracks lib p (map (\<lambda>i. int_add index (int i)) [0..<nat count])
                   (snd (register_playlist_callbacks p req Get_playlist
                           Playlist_update_in_progress_callbacks Userdata_NULL w)) of
              (err, w') \<Rightarrow>
                if err \<noteq> SP_ERROR_OK
                then unregister_and_fail lib p req (next_handler w) err w'
                else w')"
proof -
  from assms(1) have q: "(case evhttp_find_query lib (evhttp_request_get_uri req) ''index'' of
           None \<Rightarrow> None | Some f \<Rightarrow> sscanf_d f) = Some index"
    by (simp add: query_int_def)
  from assms(3) have q2: "(case evhttp_find_query lib (evhttp_request_get_uri req) ''count'' of
           None \<Rightarrow> None | Some f \<Rightarrow> sscanf_d f) = Some count"
    by (simp add: query_int_def)
  show ?thesis
    using q q2 assms(2,4)
    by (simp add: put_playlist_remove_tracks_def Let_def
          register_playlist_callbacks_def split: prod.splits)
qed

lemma extends_register_backend:
  assumes fresh: "\<forall>e \<in> set (registered w). address e \<noteq> next_handler w"
    and b: "b = (err, w1)"
    and q: "quiet (snd (register_playlist_callbacks p req f c ud w)) w1"
  shows "extends w (case b of (err, w') \<Rightarrow>
                if err \<noteq> SP_ERROR_OK
                then unregister_and_fail lib p req (next_handler w) err w'
                else w')"
proof (cases "err \<noteq> SP_ERROR_OK")
  case True
  then show ?thesis using extends_unregister_and_fail [OF fresh q] b by simp
next
  case False
  then show ?thesis
    using extends_then_quiet [OF extends_register q] b by simp
qed

lemma add_tracks_extends:
  assumes fresh: "\<forall>e \<in> set (registered w). address e \<noteq> next_handler w"
  shows "extends w (put_playlist_add_tracks lib p req w)"
proof (cases "input_rejected lib Put_playlist_add_tracks req")
  case True
  then show ?thesis
    using add_tracks_rejected [OF True, of p w] quiet_send_error quiet_extends by metis
next
  case False
  then obtain index items where i: "query_int lib req ''index'' = Some index"
    and b: "body_items lib req = Some items" by auto
  let ?w0 = "snd (register_playlist_callbacks p req Get_playlist
                 Playlist_update_in_progress_callbacks Userdata_NULL w)"
  obtain err w1 where r: "backend_add_tracks lib p (valid_tracks lib items) index ?w0 = (err, w1)"
    by (cases "backend_add_tracks lib p (valid_tracks lib items) index ?w0")
  have q: "quiet ?w0 w1" using quiet_backend_add [of ?w0 lib p "valid_tracks lib items" index] r
    by simp
  show ?thesis
    unfolding add_tracks_accepted [OF b i]
    using extends_register_backend [OF fresh r q, of lib] quiet_send_reply quiet_send_error
      quiet_extends
    by (simp add: r)
qed

lemma remove_tracks_extends:
  assumes fresh: "\<forall>e \<in> set (registered w). address e \<noteq> next_handler w"
  shows "extends w (put_playlist_remove_tracks lib p req w)"
proof (cases "input_rejected lib Put_playlist_remove_tracks req")
  case True
  then show ?thesis
    using remove_tracks_rejected [OF True, of p w] quiet_send_error quiet_extends by metis
next
  case False
  then obtain index count where i: "query_int lib req ''index'' = Some index" "\<not> index < 0"
    and c: "query_int lib req ''count'' = Some count" "\<not> count < 1"
    by (auto split: option.splits)
  let ?w0 = "snd (register_playlist_callbacks p req Get_playlist
                 Playlist_update_in_progress_callbacks Userdata_NULL w)"
  let ?ts = "map (\<lambda>i. int_add index (int i)) [0..<nat count]"
  obtain err w1 where r: "backend_remove_tracks lib p ?ts ?w0 = (err, w1)"
    by (cases "backend_remove_tracks lib p ?ts ?w0")
  have q: "quiet ?w0 w1" using quiet_backend_remove [of ?w0 lib p ?ts] r by simp
  show ?thesis
    unfolding remove_tracks_accepted [OF i c]
    using extends_register_backend [OF fresh r q, of lib]
    by (simp add: r)
qed

lemma apply_diff_extends: "extends w (apply_diff lib p req tracks w)"
proof (cases "diff_playlist_tracks lib (playlists w p) tracks")
  case (Inl e)
  then show ?thesis
    by (simp add: apply_diff_def quiet_send_error quiet_extends)
next
  case (Inr d)
  obtain err pl calls where a: "diff_playlist_tracks_apply lib d p (playlists w p) tracks = (err, pl, calls)"
    by (cases "diff_playlist_tracks_apply lib d p (playlists w p) tracks")
  let ?w1 = "w\<lparr>playlists := (playlists w)(p := pl), trace := trace w @ map Backend calls\<rparr>"
  have q: "quiet w ?w1"
    by (simp add: quiet_def dispatched_append dispatched_map_Backend)
  have "extends w (send_error req HTTP_BADREQUEST ''Could not apply diff'' ?w1)"
    using quiet_trans [OF q quiet_send_error] quiet_extends by blast
  moreover have "extends w (get_playlist p req ?w1)"
    using quiet_trans [OF q quiet_get_playlist] quiet_extends by blast
  moreover have "extends w (snd (register_playlist_callbacks p req Get_playlist
                               Playlist_update_in_progress_callbacks Userdata_NULL ?w1))"
    using quiet_then_extends [OF q extends_register] by blast
  ultimately show ?thesis
    by (simp add: apply_diff_def Inr a Let_def)
qed

lemma patch_extends: "extends w (put_playlist_patch lib p req w)"
proof (cases "input_rejected lib Put_playlist_patch req")
  case True
  then show ?thesis
    using patch_rejected [OF True, of p w] quiet_send_error quiet_extends by metis
next
  case False
  then obtain items where b: "body_items lib req = Some items" by auto
  show ?thesis
    unfolding patch_accepted [OF b]
    by (simp add: quiet_send_reply quiet_send_error quiet_extends apply_diff_extends)
qed

lemma call_handler_extends:
  assumes fresh: "\<forall>e \<in> set (registered w). address e \<noteq> next_handler w"
    and c: "call_handler lib f p req w = Some w'"
  shows "extends w w'"
proof (cases f)
  case Not_implemented
  with c show ?thesis using quiet_not_implemented quiet_extends by auto
next
  case Get_playlist
  with c show ?thesis using quiet_get_playlist quiet_extends by auto
next
  case Get_playlist_collaborative
  with c show ?thesis using quiet_send_reply quiet_extends
    by (auto simp: get_playlist_collaborative_def Let_def split: if_splits)
next
  case Put_playlist_add_tracks
  with c show ?thesis using add_tracks_extends [OF fresh] by auto
next
  case Put_playlist_remove_tracks
  with c show ?thesis using remove_tracks_extends [OF fresh] by auto
next
  case Put_playlist_patch
  with c show ?thesis using patch_extends by auto
qed

subsection \<open>The registry stays in order\<close>

lemma map_remove1_distinct:
  "distinct (map f xs) \<Longrightarrow> e \<in> set xs \<Longrightarrow> map f (remove1 e xs) = remove1 (f e) (map f xs)"
proof (induction xs)
  case Nil
  then show ?case by simp
next
  case (Cons x xs)
  show ?case
  proof (cases "x = e")
    case True
    then show ?thesis by simp
  next
    case False
    with Cons.prems have "e \<in> set xs" by simp
    with Cons.prems(1) have "f x \<noteq> f e" by auto
    with Cons False \<open>e \<in> set xs\<close> show ?thesis by simp
  qed
qed

lemma registry_okD1:
  "registry_ok w \<Longrightarrow> distinct (map address (registered w) @ dispatched (trace w))"
  by (simp add: registry_ok_def)

lemma registry_okD2:
  "registry_ok w \<Longrightarrow> e \<in> set (registered w) \<Longrightarrow> address e < next_handler w"
  by (simp add: registry_ok_def)

lemma registry_okD3:
  "registry_ok w \<Longrightarrow> a \<in> set (dispatched (trace w)) \<Longrightarrow> a < next_handler w"
  by (simp add: registry_ok_def)

lemma registry_okD4:
  "registry_ok w \<Longrightarrow> e \<in> set (registered w) \<Longrightarrow>
     \<exists>h. handlers w (address e) = Some h \<and> playlist_callbacks h = Some (fst (snd e))"
  by (simp add: registry_ok_def)

lemma registry_okI:
  assumes "distinct (map address (registered w) @ dispatched (trace w))"
    and "\<And>e. e \<in> set (registered w) \<Longrightarrow> address e < next_handler w"
    and "\<And>a. a \<in> set (dispatched (trace w)) \<Longrightarrow> a < next_handler w"
    and "\<And>e. e \<in> set (registered w) \<Longrightarrow>
           \<exists>h. handlers w (address e) = Some h \<and> playlist_callbacks h = Some (fst (snd e))"
  shows "registry_ok w"
  using assms by (auto simp: registry_ok_def)

text \<open>The registry is in order before anything is registered or dispatched.\<close>

lemma registry_ok_initial:
  "registered w = [] \<Longrightarrow> dispatched (trace w) = [] \<Longrightarrow> registry_ok w"
  by (simp add: registry_ok_def)

lemma registry_ok_fresh:
  assumes "registry_ok w"
  shows "\<forall>e \<in> set (registered w). address e \<noteq> next_handler w"
proof
  fix e assume "e \<in> set (registered w)"
  from registry_okD2 [OF assms this] show "address e \<noteq> next_handler w" by simp
qed

lemma extends_ok:
  assumes ok: "registry_ok w" and ex: "extends w w'"
  shows "registry_ok w'"
proof -
  note d = registry_okD1 [OF ok]
  from ex have t: "dispatched (trace w') = dispatched (trace w)"
    and n: "next_handler w \<le> next_handler w'"
    and hs: "\<And>b. b < next_handler w \<Longrightarrow> handlers w' b = handlers w b"
    by (simp_all add: extends_def)
  have old: "address e < next_handler w'
      \<and> (\<exists>h. handlers w' (address e) = Some h \<and> playlist_callbacks h = Some (fst (snd e)))"
    if "e \<in> set (registered w)" for e
  proof -
    from registry_okD2 [OF ok that] have l: "address e < next_handler w" .
    from registry_okD4 [OF ok that] hs [OF l] l n show ?thesis by simp
  qed
  have disp: "a < next_handler w'" if "a \<in> set (dispatched (trace w'))" for a
    using registry_okD3 [OF ok, of a] that t n by simp
  from ex consider (same) "registered w' = registered w"
    | (more) q c hd where "registered w' = registered w @ [(q, c, next_handler w)]"
        "next_handler w < next_handler w'" "handlers w' (next_handler w) = Some hd"
        "playlist_callbacks hd = Some c"
    unfolding extends_def by blast
  then show ?thesis
  proof cases
    case same
    show ?thesis
    proof (rule registry_okI)
      show "distinct (map address (registered w') @ dispatched (trace w'))"
        using d by (simp add: same t)
    qed (use old disp same in simp_all)
  next
    case more
    have f1: "next_handler w \<notin> set (map address (registered w))"
      using registry_okD2 [OF ok] by fastforce
    have f2: "next_handler w \<notin> set (dispatched (trace w))"
      using registry_okD3 [OF ok] by fastforce
    show ?thesis
    proof (rule registry_okI)
      show "distinct (map address (registered w') @ dispatched (trace w'))"
        using d f1 f2 by (simp add: more(1) t address_def)
    next
      fix e assume "e \<in> set (registered w')"
      then consider "e \<in> set (registered w)" | "e = (q, c, next_handler w)"
        by (auto simp: more(1))
      then show "address e < next_handler w'"
        using old more(2) by cases (simp_all add: address_def)
    next
      fix a assume "a \<in> set (dispatched (trace w'))"
      then show "a < next_handler w'" by (rule disp)
    next
      fix e assume "e \<in> set (registered w')"
      then consider "e \<in> set (registered w)" | "e = (q, c, next_handler w)"
        by (auto simp: more(1))
      then show "\<exists>h. handlers w' (address e) = Some h \<and> playlist_callbacks h = Some (fst (snd e))"
        using old more(3,4) by cases (simp_all add: address_def)
    qed
  qed
qed

lemma detached_ok:
  assumes ok: "registry_ok w" and e: "(p, c, a) \<in> set (registered w)"
  shows "registry_ok (detached p c a h w)"
proof -
  let ?e = "(p, c, a)"
  note d = registry_okD1 [OF ok]
  have dm: "distinct (map address (registered w))" using d by simp
  have m: "map address (remove1 ?e (registered w)) = remove1 a (map address (registered w))"
    using map_remove1_distinct [OF dm e] by (simp add: address_def)
  have a_in: "a \<in> set (map address (registered w))"
    using e by (force simp: address_def)
  have a_nd: "a \<notin> set (dispatched (trace w))" using d a_in by auto
  have sub: "e' \<in> set (registered w) \<and> address e' \<noteq> a"
    if "e' \<in> set (remove1 ?e (registered w))" for e'
  proof -
    from that have "address e' \<in> set (map address (remove1 ?e (registered w)))" by simp
    then have "address e' \<in> set (remove1 a (map address (registered w)))" by (simp only: m)
    then have "address e' \<noteq> a" using dm by simp
    moreover have "e' \<in> set (registered w)" using that set_remove1_subset [of ?e "registered w"] by blast
    ultimately show ?thesis by simp
  qed
  show ?thesis
  proof (rule registry_okI)
    have "distinct (remove1 a (map address (registered w)) @ dispatched (trace w) @ [a])"
      using d dm a_nd by auto
    then show "distinct (map address (registered (detached p c a h w))
                 @ dispatched (trace (detached p c a h w)))"
      by (simp add: detached_def dispatched_append m)
  next
    fix e' assume "e' \<in> set (registered (detached p c a h w))"
    then have "e' \<in> set (remove1 ?e (registered w))" by (simp add: detached_def)
    from sub [OF this] registry_okD2 [OF ok]
    show "address e' < next_handler (detached p c a h w)" by (simp add: detached_def)
  next
    fix x assume "x \<in> set (dispatched (trace (detached p c a h w)))"
    then have "x \<in> set (dispatched (trace w)) \<or> x = a"
      by (auto simp: detached_def dispatched_append)
    then show "x < next_handler (detached p c a h w)"
      using registry_okD3 [OF ok] registry_okD2 [OF ok e]
      by (auto simp: detached_def address_def)
  next
    fix e' assume "e' \<in> set (registered (detached p c a h w))"
    then have "e' \<in> set (remove1 ?e (registered w))" by (simp add: detached_def)
    from sub [OF this] registry_okD4 [OF ok]
    show "\<exists>h'. handlers (detached p c a h w) (address e') = Some h'
            \<and> playlist_callbacks h' = Some (fst (snd e'))"
      by (simp add: detached_def)
  qed
qed

lemma free_ok:
  assumes ok: "registry_ok w" and a: "a \<notin> set (map address (registered w))"
  shows "registry_ok (free a w)"
proof (rule registry_okI)
  show "distinct (map address (registered (free a w)) @ dispatched (trace (free a w)))"
    using registry_okD1 [OF ok] by (simp add: free_def)
next
  fix e assume "e \<in> set (registered (free a w))"
  then show "address e < next_handler (free a w)"
    using registry_okD2 [OF ok] by (simp add: free_def)
next
  fix x assume "x \<in> set (dispatched (trace (free a w)))"
  then show "x < next_handler (free a w)"
    using registry_okD3 [OF ok] by (simp add: free_def)
next
  fix e assume e: "e \<in> set (registered (free a w))"
  then have "e \<in> set (registered w)" by (simp add: free_def)
  moreover from this a have "address e \<noteq> a" by auto
  ultimately show "\<exists>h. handlers (free a w) (address e) = Some h
            \<and> playlist_callbacks h = Some (fst (snd e))"
    using registry_okD4 [OF ok] by (simp add: free_def)
qed

lemma playlist_dispatch_eq:
  assumes "handlers w a = Some h" and "playlist_callbacks h = Some c"
  shows "playlist_dispatch lib p a w =
           map_option (free a) (call_handler lib (callback h) p (request h) (detached p c a h w))"
  using assms
  by (simp add: playlist_dispatch_def detached_def Let_def sp_playlist_remove_callbacks_def
        do_action_def map_option_case)

lemma notify_entry_eq:
  "notify_entry lib p n c a w =
     (if completion_predicate c n (playlists w p) then playlist_dispatch lib p a w else Some w)"
  by (cases n; cases c)
     (simp_all add: playlist_state_changed_def playlist_update_in_progress_def)

lemma dispatch_ok:
  assumes ok: "registry_ok w" and e: "(p, c, a) \<in> set (registered w)"
    and r: "playlist_dispatch lib p a w = Some w'"
  shows "registry_ok w' \<and> dispatched (trace w') = dispatched (trace w) @ [a]
         \<and> (\<forall>e' \<in> set (registered w). e' \<noteq> (p, c, a) \<longrightarrow> e' \<in> set (registered w'))"
proof -
  from ok e obtain h where h: "handlers w a = Some h" "playlist_callbacks h = Some c"
    by (fastforce simp: registry_ok_def address_def)
  let ?w3 = "detached p c a h w"
  from r obtain w4 where c4: "call_handler lib (callback h) p (request h) ?w3 = Some w4"
    and w': "w' = free a w4"
    unfolding playlist_dispatch_eq [OF h] by auto
  have ok3: "registry_ok ?w3" by (rule detached_ok [OF ok e])
  have ex: "extends ?w3 w4"
    by (rule call_handler_extends [OF registry_ok_fresh [OF ok3] c4])
  have ok4: "registry_ok w4" by (rule extends_ok [OF ok3 ex])
  have t4: "dispatched (trace w4) = dispatched (trace w) @ [a]"
    using ex by (simp add: extends_def detached_def dispatched_append)
  have "a \<notin> set (map address (registered w4))"
    using ok4 t4 by (auto simp: registry_ok_def)
  then have ok': "registry_ok w'" unfolding w' by (rule free_ok [OF ok4])
  have keep: "\<forall>e' \<in> set (registered w). e' \<noteq> (p, c, a) \<longrightarrow> e' \<in> set (registered w')"
  proof (intro ballI impI)
    fix e' assume "e' \<in> set (registered w)" "e' \<noteq> (p, c, a)"
    then have "e' \<in> set (registered ?w3)" by (simp add: detached_def)
    moreover have "set (registered ?w3) \<subseteq> set (registered w4)"
      using ex by (auto simp: extends_def)
    ultimately show "e' \<in> set (registered w')" by (auto simp: w' free_def)
  qed
  from ok' t4 keep show ?thesis by (simp add: w' free_def)
qed

lemma notify_entries_ok:
  "registry_ok w \<Longrightarrow> notify_entries lib p n es w = Some w' \<Longrightarrow> registry_ok w'"
proof (induction es arbitrary: w)
  case Nil
  then show ?case by simp
next
  case (Cons e es)
  show ?case
  proof (cases "fst e = p \<and> e \<in> set (registered w)")
    case False
    with Cons show ?thesis by auto
  next
    case True
    obtain c a where e: "e = (p, c, a)" using True by (cases e) auto
    from Cons.prems(2) True obtain w1 where
      w1: "notify_entry lib p n c a w = Some w1" and rest: "notify_entries lib p n es w1 = Some w'"
      by (auto simp: e split: option.splits)
    have "registry_ok w1"
    proof (cases "completion_predicate c n (playlists w p)")
      case True
      with w1 have d: "playlist_dispatch lib p a w = Some w1" by (simp add: notify_entry_eq)
      have "(p, c, a) \<in> set (registered w)"
        using \<open>fst e = p \<and> e \<in> set (registered w)\<close> e by simp
      from dispatch_ok [OF Cons.prems(1) this d] show ?thesis by simp
    next
      case False
      with w1 Cons.prems(1) show ?thesis by (simp add: notify_entry_eq)
    qed
    with Cons.IH rest show ?thesis by blast
  qed
qed

lemma handle_request_cases:
  assumes r: "handle_request lib req w = Some w'"
  defines "w1 \<equiv> do_action (Evhttp_add_header req ''Server'' ''johan@liesen.se/spotify-api-server'') w"
  shows "(\<exists>code message. w' = do_action (Evhttp_send_error req code message) w1)
       \<or> (\<exists>code message. w' = send_error req code message w1)
       \<or> w' = not_implemented req w1
       \<or> (\<exists>pl f ud. dispatch_request lib pl req f ud w1 = Some w')"
  using r unfolding handle_request_def Let_def w1_def
  by (simp split: if_splits option.splits prod.splits) blast+


lemma quiet_header: "quiet w (do_action (Evhttp_add_header req k v) w)"
  by (simp add: quiet_def do_action_def dispatched_append)

lemma quiet_error_page: "quiet w (do_action (Evhttp_send_error req code message) w)"
  by (simp add: quiet_def do_action_def dispatched_append)

lemma dispatch_request_extends:
  assumes fresh: "\<forall>e \<in> set (registered w). address e \<noteq> next_handler w"
    and r: "dispatch_request lib pl req f ud w = Some w'"
  shows "extends w w'"
proof (cases "sp_playlist_is_loaded (playlists w pl)")
  case True
  with r have "call_handler lib f pl req w = Some w'" by (simp add: dispatch_request_def)
  from call_handler_extends [OF fresh this] show ?thesis .
next
  case False
  with r have "w' = snd (register_playlist_callbacks pl req f
                        Playlist_state_changed_callbacks ud w)"
    by (simp add: dispatch_request_def)
  then show ?thesis using extends_register by simp
qed

lemma handle_request_extends:
  assumes fresh: "\<forall>e \<in> set (registered w). address e \<noteq> next_handler w"
    and r: "handle_request lib req w = Some w'"
  shows "extends w w'"
proof -
  let ?w1 = "do_action (Evhttp_add_header req ''Server'' ''johan@liesen.se/spotify-api-server'') w"
  have q1: "quiet w ?w1" by (rule quiet_header)
  have fresh1: "\<forall>e \<in> set (registered ?w1). address e \<noteq> next_handler ?w1"
    using fresh by (simp add: do_action_def)
  from handle_request_cases [OF r]
  consider (page) code message where "w' = do_action (Evhttp_send_error req code message) ?w1"
    | (err) code message where "w' = send_error req code message ?w1"
    | (ni) "w' = not_implemented req ?w1"
    | (disp) pl f ud where "dispatch_request lib pl req f ud ?w1 = Some w'"
    by blast
  then show ?thesis
  proof cases
    case page
    then show ?thesis using quiet_extends [OF quiet_trans [OF q1 quiet_error_page]] by simp
  next
    case err
    then show ?thesis using quiet_extends [OF quiet_trans [OF q1 quiet_send_error]] by simp
  next
    case ni
    then show ?thesis using quiet_extends [OF quiet_trans [OF q1 quiet_not_implemented]] by simp
  next
    case disp
    from quiet_then_extends [OF q1 dispatch_request_extends [OF fresh1 disp]] show ?thesis .
  qed
qed

lemma step_ok:
  assumes ok: "registry_ok w" and s: "step lib e w = Some w'"
  shows "registry_ok w'"
proof (cases e)
  case (Request req)
  with s have "handle_request lib req w = Some w'" by simp
  from extends_ok [OF ok handle_request_extends [OF registry_ok_fresh [OF ok] this]]
  show ?thesis .
next
  case (Notification p n)
  with s have "notify_entries lib p n (registered w) w = Some w'" by (simp add: notify_def)
  from notify_entries_ok [OF ok this] show ?thesis .
next
  case (Backend_change p pl)
  with s have w': "w' = w\<lparr>playlists := (playlists w)(p := pl)\<rparr>" by simp
  show ?thesis
  proof (rule registry_okI)
    show "distinct (map address (registered w') @ dispatched (trace w'))"
      using registry_okD1 [OF ok] by (simp add: w')
  qed (use registry_okD2 [OF ok] registry_okD3 [OF ok] registry_okD4 [OF ok] in \<open>simp_all add: w'\<close>)
qed

lemma run_ok: "registry_ok w \<Longrightarrow> run lib es w = Some w' \<Longrightarrow> registry_ok w'"
proof (induction es arbitrary: w)
  case Nil
  then show ?case by simp
next
  case (Cons e es)
  from Cons.prems(2) obtain w1 where s: "step lib e w = Some w1" and r: "run lib es w1 = Some w'"
    by (auto split: option.splits)
  from Cons.IH [OF step_ok [OF Cons.prems(1) s] r] show ?case .
qed

lemma distinct_count_le_1: "distinct xs \<Longrightarrow> count_list xs a \<le> 1"
  by (induction xs) (auto simp: count_list_0_iff)

lemma distinct_count_eq_1: "distinct xs \<Longrightarrow> a \<in> set xs \<Longrightarrow> count_list xs a = 1"
  by (induction xs) (auto simp: count_list_0_iff)

lemma fires_detached:
  assumes ok: "registry_ok w" and e: "(p, c, a) \<in> set (registered w)"
    and cp: "completion_predicate c n (playlists w p)"
  shows "\<exists>h. handlers w a = Some h \<and> (p, c, a) \<notin> set (registered (detached p c a h w))
           \<and> notify_entry lib p n c a w =
               map_option (free a) (call_handler lib (callback h) p (request h) (detached p c a h w))"
proof -
  from registry_okD4 [OF ok e] obtain h where h: "handlers w a = Some h" "playlist_callbacks h = Some c"
    by (auto simp: address_def)
  have "distinct (registered w)" using registry_okD1 [OF ok] by (simp add: distinct_map)
  then have "(p, c, a) \<notin> set (registered (detached p c a h w))"
    by (simp add: detached_def)
  with h cp show ?thesis
    by (simp add: notify_entry_eq playlist_dispatch_eq [OF h])
qed

lemma fired_once:
  assumes ok: "registry_ok w" and e: "(p, c, a) \<in> set (registered w)"
    and cp: "completion_predicate c n (playlists w p)"
    and r: "notify_entry lib p n c a w = Some w'"
  shows "registry_ok w' \<and> count_list (dispatched (trace w')) a = 1
         \<and> a \<notin> set (map address (registered w'))"
proof -
  from r cp have d: "playlist_dispatch lib p a w = Some w'" by (simp add: notify_entry_eq)
  from dispatch_ok [OF ok e d] have ok': "registry_ok w'"
    and t: "dispatched (trace w') = dispatched (trace w) @ [a]" by simp_all
  from registry_okD1 [OF ok'] t show ?thesis
    using ok' distinct_count_eq_1 [of "dispatched (trace w')" a] by auto
qed

subsection \<open>C1: a registration fires once\<close>

text \<open>C1: in a world whose registry is in order (as it is at the start and stays along
  every run), a notification that satisfies the completion predicate of a registration
  (a state change with the playlist loaded, an update in progress that is done) calls
  the handler of the registration, and calls it in a world where the registration has
  already left the callback set; when the call returns, the handler has been
  dispatched exactly once and is not registered. Along every run of requests,
  notifications and changes by the backend, however often the notifications repeat, no
  handler is dispatched twice, and a dispatched handler is never registered again.\<close>

theorem on_ready_exactly_once:
  assumes "registry_ok w"
  shows "(\<forall>p c a n.
            (p, c, a) \<in> set (registered w) \<and> completion_predicate c n (playlists w p) \<longrightarrow>
              (\<exists>h. handlers w a = Some h
                 \<and> (p, c, a) \<notin> set (registered (detached p c a h w))
                 \<and> notify_entry lib p n c a w =
                     map_option (free a)
                       (call_handler lib (callback h) p (request h) (detached p c a h w)))
              \<and> (\<forall>w'. notify_entry lib p n c a w = Some w' \<longrightarrow>
                     count_list (dispatched (trace w')) a = 1
                     \<and> a \<notin> set (map address (registered w'))))
         \<and> (\<forall>es w' a.
               run lib es w = Some w' \<longrightarrow>
                 registry_ok w' \<and> count_list (dispatched (trace w')) a \<le> 1
                 \<and> (a \<in> set (dispatched (trace w')) \<longrightarrow>
                       a \<notin> set (map address (registered w'))))"
proof (intro conjI allI impI)
  fix p c a n
  assume h: "(p, c, a) \<in> set (registered w) \<and> completion_predicate c n (playlists w p)"
  from fires_detached [OF assms, of p c a n lib] h
  show "\<exists>h. handlers w a = Some h
          \<and> (p, c, a) \<notin> set (registered (detached p c a h w))
          \<and> notify_entry lib p n c a w =
              map_option (free a)
                (call_handler lib (callback h) p (request h) (detached p c a h w))"
    by simp
next
  fix p c a n w'
  assume h: "(p, c, a) \<in> set (registered w) \<and> completion_predicate c n (playlists w p)"
    and r: "notify_entry lib p n c a w = Some w'"
  from fired_once [OF assms _ _ r] h
  show "count_list (dispatched (trace w')) a = 1" and "a \<notin> set (map address (registered w'))"
    by simp_all
next
  fix es w' a
  assume r: "run lib es w = Some w'"
  from run_ok [OF assms r] show ok': "registry_ok w'" .
  from registry_okD1 [OF ok'] show "count_list (dispatched (trace w')) a \<le> 1"
    using distinct_count_le_1 [of "dispatched (trace w')" a] by simp
  assume "a \<in> set (dispatched (trace w'))"
  with registry_okD1 [OF ok'] show "a \<notin> set (map address (registered w'))" by auto
qed

lemma example_parked_ok: "registry_ok example_parked"
  by (simp add: registry_ok_def example_parked_def example_waiting_def address_def)

lemma example_reached:
  "run example_lib [Request example_get, Backend_change 0 example_playlist] example_unloaded
     = Some example_parked"
  by (simp add: handle_request_def Let_def do_action_def example_get_def example_unloaded_def
     example_world_def example_lib_def strtok_def strncmp_eq_def example_link_def select_callback_def
     dispatch_request_def example_playlist_def register_playlist_callbacks_def
     example_parked_def example_waiting_def fun_eq_iff)

lemma example_twice:
  "run example_lib [Notification 0 State_changed, Notification 0 State_changed] example_parked
     = Some example_served"
  by (simp add: notify_def playlist_state_changed_def playlist_dispatch_def Let_def
        sp_playlist_remove_callbacks_def do_action_def get_playlist_def send_reply_eq free_def
        example_parked_def example_waiting_def example_served_def example_playlist_def fun_eq_iff)

theorem on_ready_exactly_once_witness:
  "registry_ok example_parked
   \<and> (0, Playlist_state_changed_callbacks, 0) \<in> set (registered example_parked)
   \<and> completion_predicate Playlist_state_changed_callbacks State_changed
        (playlists example_parked 0)
   \<and> (\<exists>h. handlers example_parked 0 = Some h
         \<and> (0, Playlist_state_changed_callbacks, 0)
              \<notin> set (registered (detached 0 Playlist_state_changed_callbacks 0 h example_parked))
         \<and> notify_entry example_lib 0 State_changed Playlist_state_changed_callbacks 0
              example_parked =
             map_option (free 0)
               (call_handler example_lib (callback h) 0 (request h)
                  (detached 0 Playlist_state_changed_callbacks 0 h example_parked)))
   \<and> run example_lib [Notification 0 State_changed, Notification 0 State_changed]
        example_parked = Some example_served
   \<and> registry_ok example_served
   \<and> count_list (dispatched (trace example_served)) 0 \<le> 1
   \<and> dispatched (trace example_served) = [0]"
proof -
  have r: "(0, Playlist_state_changed_callbacks, 0) \<in> set (registered example_parked)"
    by (simp add: example_parked_def example_waiting_def)
  have c: "completion_predicate Playlist_state_changed_callbacks State_changed
        (playlists example_parked 0)"
    by (simp add: example_parked_def example_playlist_def)
  note t = on_ready_exactly_once [OF example_parked_ok, of example_lib]
  from t [THEN conjunct1, rule_format, of 0 Playlist_state_changed_callbacks 0 State_changed] r c
  have a: "\<exists>h. handlers example_parked 0 = Some h
         \<and> (0, Playlist_state_changed_callbacks, 0)
              \<notin> set (registered (detached 0 Playlist_state_changed_callbacks 0 h example_parked))
         \<and> notify_entry example_lib 0 State_changed Playlist_state_changed_callbacks 0
              example_parked =
             map_option (free 0)
               (call_handler example_lib (callback h) 0 (request h)
                  (detached 0 Playlist_state_changed_callbacks 0 h example_parked))"
    by blast
  from t [THEN conjunct2, rule_format, OF example_twice, of 0]
  have b: "registry_ok example_served \<and> count_list (dispatched (trace example_served)) 0 \<le> 1"
    by simp
  have d: "dispatched (trace example_served) = [0]"
    by (simp add: example_served_def example_parked_def example_waiting_def)
  from example_parked_ok r c a example_twice b d show ?thesis by simp
qed

subsection \<open>C5: no failure path\<close>

lemma notify_unloaded:
  "\<not> sp_playlist_is_loaded (playlists w p) \<Longrightarrow> notify_entries lib p State_changed es w = Some w"
proof (induction es)
  case Nil
  then show ?case by simp
next
  case (Cons e es)
  have "notify_entry lib p State_changed c a w = Some w" for c a
    using Cons.prems by (cases c) (simp_all add: notify_entry_eq)
  with Cons show ?case by simp
qed

text \<open>C5, as the code has it: the registry has no failure path. A notification
  dispatches a registration exactly when the completion predicate of the registration
  holds, and changes nothing otherwise; a state change of a playlist that is not loaded
  changes nothing at all; and when the session ends, \<open>logged_out\<close> leaves everything the
  session holds, the registrations among it, as it is. A handler gets no failure
  indicator: \<open>handle_playlist_fn\<close> has no parameter for one.\<close>

theorem no_failure_path:
  "notify_entry lib p n c a w =
     (if completion_predicate c n (playlists w p) then playlist_dispatch lib p a w else Some w)
   \<and> (\<not> sp_playlist_is_loaded (playlists w p) \<longrightarrow> notify lib p State_changed w = Some w)
   \<and> session (logged_out st) = session st"
  by (simp add: notify_entry_eq notify_def notify_unloaded logged_out_def)

lemma example_waiting_notified:
  "notify example_lib 0 State_changed example_waiting = Some example_waiting"
proof -
  have "\<not> sp_playlist_is_loaded (playlists example_waiting 0)"
    by (simp add: example_waiting_def)
  from notify_unloaded [OF this] show ?thesis by (simp add: notify_def)
qed

theorem no_failure_path_witness:
  "\<not> sp_playlist_is_loaded (playlists example_waiting 0)
   \<and> \<not> completion_predicate Playlist_state_changed_callbacks State_changed
          (playlists example_waiting 0)
   \<and> notify_entry example_lib 0 State_changed Playlist_state_changed_callbacks 0 example_waiting
        = Some example_waiting
   \<and> notify example_lib 0 State_changed example_waiting = Some example_waiting
   \<and> session (logged_out example_server) = example_waiting"
proof -
  have nl: "\<not> sp_playlist_is_loaded (playlists example_waiting 0)"
    by (simp add: example_waiting_def)
  then have nc: "\<not> completion_predicate Playlist_state_changed_callbacks State_changed
          (playlists example_waiting 0)" by simp
  note t = no_failure_path [of example_lib 0 State_changed Playlist_state_changed_callbacks 0
      example_waiting example_server]
  from t nl nc show ?thesis by (simp add: example_server_def)
qed

text \<open>C5 as stated fails: the Get request for the playlist that is not loaded is parked;
  the session ends and the playlist never loads. After \<open>logged_out\<close> and a state change
  of the playlist the registration is still attached, no handler was dispatched, and
  the request has no answer.\<close>

theorem failure_leaves_registration:
  "handle_request example_lib example_get example_unloaded = Some example_waiting
   \<and> session (logged_out example_server) = example_waiting
   \<and> notify example_lib 0 State_changed example_waiting = Some example_waiting
   \<and> registered example_waiting = [(0, Playlist_state_changed_callbacks, 0)]
   \<and> dispatched (trace example_waiting) = []
   \<and> answers example_get (trace example_waiting) = []"
proof -
  have "handle_request example_lib example_get example_unloaded = Some example_waiting"
    by (simp add: handle_request_def Let_def do_action_def example_get_def example_unloaded_def
     example_world_def example_lib_def strtok_def strncmp_eq_def example_link_def select_callback_def
     dispatch_request_def example_playlist_def register_playlist_callbacks_def
     example_waiting_def fun_eq_iff)
  moreover have "session (logged_out example_server) = example_waiting"
    by (simp add: logged_out_def example_server_def)
  moreover have "registered example_waiting = [(0, Playlist_state_changed_callbacks, 0)]
   \<and> dispatched (trace example_waiting) = []
   \<and> answers example_get (trace example_waiting) = []"
    by (simp add: example_waiting_def answers_def)
  ultimately show ?thesis using example_waiting_notified by simp
qed

subsection \<open>C4: a request for a playlist that is not loaded waits\<close>

lemma notify_entries_keeps:
  assumes "registry_ok w" and "e0 \<in> set (registered w)"
    and "fst e0 \<noteq> q \<or> (\<forall>pl. \<not> completion_predicate (fst (snd e0)) n pl)"
    and "notify_entries lib q n es w = Some w'"
  shows "e0 \<in> set (registered w')"
  using assms
proof (induction es arbitrary: w)
  case Nil
  then show ?case by simp
next
  case (Cons e es)
  show ?case
  proof (cases "fst e = q \<and> e \<in> set (registered w)")
    case False
    with Cons.prems(4) have "notify_entries lib q n es w = Some w'" by auto
    from Cons.IH [OF Cons.prems(1,2,3) this] show ?thesis .
  next
    case True
    obtain c a where e: "e = (q, c, a)" using True by (cases e) auto
    from Cons.prems(4) True obtain w1 where
      w1: "notify_entry lib q n c a w = Some w1" and rest: "notify_entries lib q n es w1 = Some w'"
      by (auto simp: e split: option.splits)
    have "registry_ok w1 \<and> e0 \<in> set (registered w1)"
    proof (cases "completion_predicate c n (playlists w q)")
      case cp: True
      with w1 have d: "playlist_dispatch lib q a w = Some w1" by (simp add: notify_entry_eq)
      have in_reg: "(q, c, a) \<in> set (registered w)" using True e by simp
      have "e0 \<noteq> (q, c, a)" using Cons.prems(3) cp by auto
      with dispatch_ok [OF Cons.prems(1) in_reg d] Cons.prems(2) show ?thesis by blast
    next
      case False
      with w1 Cons.prems(1,2) show ?thesis by (simp add: notify_entry_eq)
    qed
    then have "registry_ok w1" and "e0 \<in> set (registered w1)" by simp_all
    from Cons.IH [OF this Cons.prems(3) rest] show ?thesis .
  qed
qed

lemma extends_keeps: "extends w w' \<Longrightarrow> e \<in> set (registered w) \<Longrightarrow> e \<in> set (registered w')"
  by (auto simp: extends_def)

lemma registered_not_dispatched:
  assumes "registry_ok w" and "(p, c, a) \<in> set (registered w)"
  shows "a \<notin> set (dispatched (trace w))"
proof -
  have "a \<in> set (map address (registered w))" using assms(2) by (force simp: address_def)
  with registry_okD1 [OF assms(1)] show ?thesis by auto
qed

lemma step_keeps_parked:
  assumes ok: "registry_ok w"
    and e0: "(p, Playlist_state_changed_callbacks, a) \<in> set (registered w)"
    and s: "step lib e w = Some w'"
    and ne: "\<not> (e = Notification p State_changed \<and> sp_playlist_is_loaded (playlists w p))"
  shows "(p, Playlist_state_changed_callbacks, a) \<in> set (registered w')"
proof (cases e)
  case (Request req)
  with s have "handle_request lib req w = Some w'" by simp
  from extends_keeps [OF handle_request_extends [OF registry_ok_fresh [OF ok] this] e0]
  show ?thesis .
next
  case (Notification q n)
  with s have r: "notify_entries lib q n (registered w) w = Some w'" by (simp add: notify_def)
  show ?thesis
  proof (cases "q = p \<and> n = State_changed")
    case True
    with ne Notification have "\<not> sp_playlist_is_loaded (playlists w p)" by simp
    from notify_unloaded [OF this, of lib "registered w"] r True e0 show ?thesis by simp
  next
    case False
    have "fst (p, Playlist_state_changed_callbacks, a) \<noteq> q
        \<or> (\<forall>pl. \<not> completion_predicate (fst (snd (p, Playlist_state_changed_callbacks, a))) n pl)"
      using False by (cases n) auto
    from notify_entries_keeps [OF ok e0 this r] show ?thesis .
  qed
next
  case (Backend_change q pl)
  with s e0 show ?thesis by auto
qed

lemma run_keeps_parked:
  assumes "registry_ok w"
    and "(p, Playlist_state_changed_callbacks, a) \<in> set (registered w)"
    and "run lib es w = Some w'"
    and "Notification p State_changed \<notin> set es"
  shows "(p, Playlist_state_changed_callbacks, a) \<in> set (registered w')"
  using assms
proof (induction es arbitrary: w)
  case Nil
  then show ?case by simp
next
  case (Cons e es)
  from Cons.prems(3) obtain w1 where s: "step lib e w = Some w1" and r: "run lib es w1 = Some w'"
    by (auto split: option.splits)
  have ne: "\<not> (e = Notification p State_changed \<and> sp_playlist_is_loaded (playlists w p))"
    using Cons.prems(4) by auto
  have "Notification p State_changed \<notin> set es" using Cons.prems(4) by simp
  from Cons.IH [OF step_ok [OF Cons.prems(1) s]
      step_keeps_parked [OF Cons.prems(1,2) s ne] r this]
  show ?case .
qed

lemma parks_unloaded:
  assumes ok: "registry_ok w" and nl: "\<not> sp_playlist_is_loaded (playlists w p)"
  shows "\<exists>w1. dispatch_request lib p req f ud w = Some w1 \<and> registry_ok w1
           \<and> trace w1 = trace w \<and> playlists w1 = playlists w
           \<and> registered w1 = registered w @ [(p, Playlist_state_changed_callbacks, next_handler w)]
           \<and> handlers w1 (next_handler w) =
               Some \<lparr>playlist_callbacks = Some Playlist_state_changed_callbacks, request = req,
                     callback = f, userdata = ud\<rparr>"
proof -
  let ?w1 = "snd (register_playlist_callbacks p req f Playlist_state_changed_callbacks ud w)"
  have "dispatch_request lib p req f ud w = Some ?w1" using nl by (simp add: dispatch_request_def)
  moreover have "registry_ok ?w1" by (rule extends_ok [OF ok extends_register])
  ultimately show ?thesis
    by (simp add: register_playlist_callbacks_def Let_def)
qed

text \<open>C4: at the end of \<open>handle_request\<close>, on a loaded playlist the handler of the
  request is called at once, and the dispatcher registers nothing itself; on a playlist
  that is not loaded the handler is not called and nothing is sent: the request is
  parked on the state changes of the playlist. A request parked for the playlist \<open>p\<close>
  stays parked, its handler not dispatched, over every step that is not a state change
  of \<open>p\<close> arriving when \<open>p\<close> is loaded, and so over every run without a
  state-change notification of \<open>p\<close>.\<close>

theorem unloaded_request_waits:
  assumes "registry_ok w"
  shows "(sp_playlist_is_loaded (playlists w p) \<longrightarrow>
            dispatch_request lib p req f ud w = call_handler lib f p req w)
       \<and> (\<not> sp_playlist_is_loaded (playlists w p) \<longrightarrow>
            (\<exists>w1. dispatch_request lib p req f ud w = Some w1 \<and> registry_ok w1
               \<and> trace w1 = trace w \<and> playlists w1 = playlists w
               \<and> registered w1 =
                   registered w @ [(p, Playlist_state_changed_callbacks, next_handler w)]
               \<and> handlers w1 (next_handler w) =
                   Some \<lparr>playlist_callbacks = Some Playlist_state_changed_callbacks,
                         request = req, callback = f, userdata = ud\<rparr>))
       \<and> (\<forall>a e w'.
             (p, Playlist_state_changed_callbacks, a) \<in> set (registered w)
             \<and> step lib e w = Some w'
             \<and> \<not> (e = Notification p State_changed \<and> sp_playlist_is_loaded (playlists w p))
             \<longrightarrow> (p, Playlist_state_changed_callbacks, a) \<in> set (registered w')
                 \<and> a \<notin> set (dispatched (trace w')))
       \<and> (\<forall>a es w'.
             (p, Playlist_state_changed_callbacks, a) \<in> set (registered w)
             \<and> run lib es w = Some w'
             \<and> Notification p State_changed \<notin> set es
             \<longrightarrow> (p, Playlist_state_changed_callbacks, a) \<in> set (registered w')
                 \<and> a \<notin> set (dispatched (trace w')))"
proof (intro conjI allI impI)
  assume "sp_playlist_is_loaded (playlists w p)"
  then show "dispatch_request lib p req f ud w = call_handler lib f p req w"
    by (simp add: dispatch_request_def)
next
  assume "\<not> sp_playlist_is_loaded (playlists w p)"
  from parks_unloaded [OF assms this]
  show "\<exists>w1. dispatch_request lib p req f ud w = Some w1 \<and> registry_ok w1
               \<and> trace w1 = trace w \<and> playlists w1 = playlists w
               \<and> registered w1 =
                   registered w @ [(p, Playlist_state_changed_callbacks, next_handler w)]
               \<and> handlers w1 (next_handler w) =
                   Some \<lparr>playlist_callbacks = Some Playlist_state_changed_callbacks,
                         request = req, callback = f, userdata = ud\<rparr>" .
next
  fix a e w'
  assume h: "(p, Playlist_state_changed_callbacks, a) \<in> set (registered w)
             \<and> step lib e w = Some w'
             \<and> \<not> (e = Notification p State_changed \<and> sp_playlist_is_loaded (playlists w p))"
  then have e0: "(p, Playlist_state_changed_callbacks, a) \<in> set (registered w)"
    and s: "step lib e w = Some w'"
    and ne: "\<not> (e = Notification p State_changed \<and> sp_playlist_is_loaded (playlists w p))"
    by simp_all
  from step_keeps_parked [OF assms e0 s ne]
  show k: "(p, Playlist_state_changed_callbacks, a) \<in> set (registered w')" .
  from registered_not_dispatched [OF step_ok [OF assms s] k]
  show "a \<notin> set (dispatched (trace w'))" .
next
  fix a es w'
  assume h: "(p, Playlist_state_changed_callbacks, a) \<in> set (registered w)
             \<and> run lib es w = Some w'
             \<and> Notification p State_changed \<notin> set es"
  then have e0: "(p, Playlist_state_changed_callbacks, a) \<in> set (registered w)"
    and r: "run lib es w = Some w'"
    and ne: "Notification p State_changed \<notin> set es"
    by simp_all
  from run_keeps_parked [OF assms e0 r ne]
  show k: "(p, Playlist_state_changed_callbacks, a) \<in> set (registered w')" .
  from registered_not_dispatched [OF run_ok [OF assms r] k]
  show "a \<notin> set (dispatched (trace w'))" .
qed

lemma example_waiting_ok: "registry_ok example_waiting"
  by (simp add: registry_ok_def example_waiting_def address_def)

theorem unloaded_request_waits_witness:
  "registry_ok example_waiting
   \<and> \<not> sp_playlist_is_loaded (playlists example_waiting 0)
   \<and> (\<exists>w1. dispatch_request example_lib 0 example_get Get_playlist Userdata_NULL example_waiting
              = Some w1
         \<and> trace w1 = trace example_waiting
         \<and> registered w1 =
             registered example_waiting @ [(0, Playlist_state_changed_callbacks, 1)])
   \<and> (0, Playlist_state_changed_callbacks, 0) \<in> set (registered example_waiting)
   \<and> step example_lib (Notification 0 State_changed) example_waiting = Some example_waiting
   \<and> 0 \<notin> set (dispatched (trace example_waiting))
   \<and> run example_lib [Notification 0 (Update_in_progress True),
                       Backend_change 0 example_playlist] example_waiting = Some example_parked
   \<and> (0, Playlist_state_changed_callbacks, 0) \<in> set (registered example_parked)
   \<and> 0 \<notin> set (dispatched (trace example_parked))"
proof -
  have nl: "\<not> sp_playlist_is_loaded (playlists example_waiting 0)"
    by (simp add: example_waiting_def)
  have r: "(0, Playlist_state_changed_callbacks, 0) \<in> set (registered example_waiting)"
    by (simp add: example_waiting_def)
  have s: "step example_lib (Notification 0 State_changed) example_waiting = Some example_waiting"
    using example_waiting_notified by simp
  have ru: "run example_lib [Notification 0 (Update_in_progress True),
                       Backend_change 0 example_playlist] example_waiting = Some example_parked"
    by (simp add: notify_def example_waiting_def example_parked_def)
  have n: "Notification 0 State_changed \<notin> set [Notification 0 (Update_in_progress True),
                       Backend_change 0 example_playlist]" by simp
  note t = unloaded_request_waits [OF example_waiting_ok, of 0 example_lib example_get
      Get_playlist Userdata_NULL]
  from t [THEN conjunct2, THEN conjunct1, rule_format, OF nl]
  have a: "\<exists>w1. dispatch_request example_lib 0 example_get Get_playlist Userdata_NULL example_waiting
              = Some w1
         \<and> trace w1 = trace example_waiting
         \<and> registered w1 =
             registered example_waiting @ [(0, Playlist_state_changed_callbacks, 1)]"
    by (auto simp: example_waiting_def)
  from t [THEN conjunct2, THEN conjunct2, THEN conjunct1, rule_format,
      of 0 "Notification 0 State_changed" example_waiting] r s nl
  have b: "0 \<notin> set (dispatched (trace example_waiting))" by simp
  from t [THEN conjunct2, THEN conjunct2, THEN conjunct2, rule_format,
      of 0 "[Notification 0 (Update_in_progress True), Backend_change 0 example_playlist]"
         example_parked] r ru n
  have c: "(0, Playlist_state_changed_callbacks, 0) \<in> set (registered example_parked)
   \<and> 0 \<notin> set (dispatched (trace example_parked))" by simp
  from example_waiting_ok nl a r s b ru c show ?thesis by simp
qed

subsection \<open>C2: what a Patch request does\<close>

lemma example_patch_items:
  "body_items example_lib example_patch =
     Some [JString ''spotify:track:a'', JString ''spotify:track:c'']"
  by (simp add: body_items_def example_lib_def example_patch_def example_json_loads_def
        body_desired_def body_mixed_def body_no_tracks_def quoted_def read_body_def)

lemma example_patch_valid:
  "valid_tracks example_lib [JString ''spotify:track:a'', JString ''spotify:track:c'']
   = [Track ''spotify:track:a'', Track ''spotify:track:c'']"
  by (simp add: valid_tracks_def valid_track_def List.map_filter_simps example_lib_def
        example_link_def)

lemma example_compute:
  "compute [Track ''spotify:track:a'', Track ''spotify:track:b'']
           [Track ''spotify:track:a'', Track ''spotify:track:c'']
   = [Remove 1 1, Insert 1 [Track ''spotify:track:c'']]"
  by (simp add: compute_def)

lemma example_patch_handler:
  "put_playlist_patch example_lib 0 example_patch w =
     apply_diff example_lib 0 example_patch
       [Track ''spotify:track:a'', Track ''spotify:track:c''] w"
  using patch_accepted [OF example_patch_items, of 0 w] by (simp add: example_patch_valid)

lemma example_apply_diff:
  "playlists w 0 = example_playlist \<Longrightarrow>
   apply_diff example_lib 0 example_patch
       [Track ''spotify:track:a'', Track ''spotify:track:c''] w =
     snd (register_playlist_callbacks 0 example_patch Get_playlist
            Playlist_update_in_progress_callbacks Userdata_NULL
            (w\<lparr>playlists := (playlists w)
                  (0 := example_playlist
                     \<lparr>sp_playlist_tracks := [Track ''spotify:track:a'', Track ''spotify:track:c''],
                      sp_playlist_has_pending_changes := True\<rparr>),
               trace := trace w @
                  [Backend (Sp_playlist_remove_tracks 0 [1]),
                   Backend (Sp_playlist_add_tracks 0 [Track ''spotify:track:c''] 1)]\<rparr>))"
  by (simp add: apply_diff_def example_lib_def example_playlist_def example_compute
        example_remove_tracks_def example_add_tracks_def Let_def enumerate_eq_zip)

lemma example_patch_request:
  "handle_request example_lib example_patch example_world =
     Some (put_playlist_patch example_lib 0 example_patch
             (do_action (Evhttp_add_header example_patch ''Server''
                           ''johan@liesen.se/spotify-api-server'') example_world))"
  by (simp add: handle_request_def Let_def example_patch_def
     example_world_def example_lib_def strtok_def strncmp_eq_def example_link_def select_callback_def
     dispatch_request_def example_playlist_def do_action_def)

lemma example_patch_run:
  "run example_lib
     [Request example_patch, Backend_change 0 example_mutated,
      Notification 0 (Update_in_progress True)] example_world
   = Some example_patched"
  unfolding run.simps step.simps example_patch_request example_patch_handler
  by (simp add: example_apply_diff do_action_def example_world_def
        register_playlist_callbacks_def Let_def notify_def playlist_update_in_progress_def
        playlist_dispatch_def sp_playlist_remove_callbacks_def get_playlist_def send_reply_eq
        free_def playlist_json_eq example_mutated_def example_playlist_def example_patched_def
        fun_eq_iff)

lemma answers_append: "answers req (xs @ ys) = answers req xs @ answers req ys"
  by (simp add: answers_def)

lemma answers_map_Backend: "answers req (map Backend cs) = []"
  by (induction cs) (simp_all add: answers_def)

lemma send_error_counts:
  "backend_calls (trace (send_error req code message w)) = backend_calls (trace w)
   \<and> length (answers req (trace (send_error req code message w)))
       = Suc (length (answers req (trace w)))
   \<and> registered (send_error req code message w) = registered w"
  by (simp add: send_error_eq backend_calls_append answers_append) (simp add: answers_def)

lemma get_playlist_counts:
  "backend_calls (trace (get_playlist p req w)) = backend_calls (trace w)
   \<and> length (answers req (trace (get_playlist p req w))) = Suc (length (answers req (trace w)))
   \<and> registered (get_playlist p req w) = registered w"
  by (simp add: get_playlist_def send_reply_eq backend_calls_append answers_append)
     (simp add: answers_def)

lemma apply_diff_once:
  "backend_calls (trace (apply_diff lib p req tracks w)) =
     backend_calls (trace w) @
       (case diff_playlist_tracks lib (playlists w p) tracks of
          Inl e \<Rightarrow> []
        | Inr d \<Rightarrow> snd (snd (diff_playlist_tracks_apply lib d p (playlists w p) tracks)))"
proof (cases "diff_playlist_tracks lib (playlists w p) tracks")
  case (Inl e)
  then show ?thesis by (simp add: apply_diff_def send_error_counts)
next
  case (Inr d)
  obtain err pl calls where a: "diff_playlist_tracks_apply lib d p (playlists w p) tracks = (err, pl, calls)"
    by (cases "diff_playlist_tracks_apply lib d p (playlists w p) tracks")
  show ?thesis
    by (simp add: apply_diff_def Inr a Let_def send_error_counts get_playlist_counts
          register_playlist_callbacks_def backend_calls_append backend_calls_map)
qed

lemma apply_diff_answer:
  "(length (answers req (trace (apply_diff lib p req tracks w)))
       = Suc (length (answers req (trace w)))
    \<and> registered (apply_diff lib p req tracks w) = registered w)
   \<or> (answers req (trace (apply_diff lib p req tracks w)) = answers req (trace w)
      \<and> registered (apply_diff lib p req tracks w) =
           registered w @ [(p, Playlist_update_in_progress_callbacks, next_handler w)]
      \<and> handlers (apply_diff lib p req tracks w) (next_handler w) =
           Some \<lparr>playlist_callbacks = Some Playlist_update_in_progress_callbacks,
                 request = req, callback = Get_playlist, userdata = Userdata_NULL\<rparr>)"
proof (cases "diff_playlist_tracks lib (playlists w p) tracks")
  case (Inl e)
  then show ?thesis by (simp add: apply_diff_def send_error_counts)
next
  case (Inr d)
  obtain err pl calls where a: "diff_playlist_tracks_apply lib d p (playlists w p) tracks = (err, pl, calls)"
    by (cases "diff_playlist_tracks_apply lib d p (playlists w p) tracks")
  show ?thesis
    by (simp add: apply_diff_def Inr a Let_def send_error_counts get_playlist_counts
          register_playlist_callbacks_def answers_append answers_map_Backend)
qed

lemma settled_reply:
  assumes h: "handlers w2 a =
      Some \<lparr>playlist_callbacks = Some Playlist_update_in_progress_callbacks,
            request = req, callback = Get_playlist, userdata = Userdata_NULL\<rparr>"
  shows "\<exists>w3. notify_entry lib p (Update_in_progress True)
                 Playlist_update_in_progress_callbacks a w2 = Some w3
           \<and> playlists w3 = playlists w2
           \<and> trace w3 = trace w2 @
               [Dispatched a,
                Evhttp_add_header req ''Content-type'' ''application/json; charset=UTF-8'',
                Evhttp_send_reply req 200 ''OK'' (Json_dumps (playlist_json (playlists w2 p)))]"
  by (simp add: playlist_update_in_progress_def playlist_dispatch_eq [OF h, simplified]
        get_playlist_def send_reply_eq free_def detached_def)

text \<open>C2, as the code has it: a Patch request with at least one valid track computes one
  diff, against the playlist as it is when the handler runs, and applies it once: the
  calls of the mutation primitives it adds to the trace are those of this one
  application. Then either one answer is sent at once and nothing is registered (the
  diff or its application failed, or the backend has no pending changes), or no answer
  is sent and one continuation is registered for the end of the update, with
  \<open>get_playlist\<close> as its handler. When the backend reports that the update is done, this
  continuation sends the playlist as it is then, whatever it holds: it is not compared
  with the desired sequence, no diff is computed again and the playlist is not touched.\<close>

theorem patch_replies_current_state:
  assumes "body_items lib req = Some items" and "valid_tracks lib items \<noteq> []"
  shows "backend_calls (trace (put_playlist_patch lib p req w)) =
           backend_calls (trace w) @
             (case diff_playlist_tracks lib (playlists w p) (valid_tracks lib items) of
                Inl e \<Rightarrow> []
              | Inr d \<Rightarrow>
                  snd (snd (diff_playlist_tracks_apply lib d p (playlists w p)
                              (valid_tracks lib items))))
       \<and> ((length (answers req (trace (put_playlist_patch lib p req w)))
              = Suc (length (answers req (trace w)))
            \<and> registered (put_playlist_patch lib p req w) = registered w)
          \<or> (answers req (trace (put_playlist_patch lib p req w)) = answers req (trace w)
             \<and> registered (put_playlist_patch lib p req w) =
                  registered w @ [(p, Playlist_update_in_progress_callbacks, next_handler w)]
             \<and> handlers (put_playlist_patch lib p req w) (next_handler w) =
                  Some \<lparr>playlist_callbacks = Some Playlist_update_in_progress_callbacks,
                        request = req, callback = Get_playlist, userdata = Userdata_NULL\<rparr>))
       \<and> (\<forall>w2 a.
             handlers w2 a =
               Some \<lparr>playlist_callbacks = Some Playlist_update_in_progress_callbacks,
                     request = req, callback = Get_playlist, userdata = Userdata_NULL\<rparr>
             \<longrightarrow> (\<exists>w3. notify_entry lib p (Update_in_progress True)
                          Playlist_update_in_progress_callbacks a w2 = Some w3
                    \<and> playlists w3 = playlists w2
                    \<and> trace w3 = trace w2 @
                        [Dispatched a,
                         Evhttp_add_header req ''Content-type''
                           ''application/json; charset=UTF-8'',
                         Evhttp_send_reply req 200 ''OK''
                           (Json_dumps (playlist_json (playlists w2 p)))]))"
proof -
  have items: "items \<noteq> []"
    using assms(2) by (auto simp: valid_tracks_def List.map_filter_simps)
  have eq: "put_playlist_patch lib p req w = apply_diff lib p req (valid_tracks lib items) w"
    using patch_accepted [OF assms(1), of p w] assms(2) items by simp
  show ?thesis
    unfolding eq
    using apply_diff_once [of lib p req "valid_tracks lib items" w]
      apply_diff_answer [of req lib p "valid_tracks lib items" w]
      settled_reply [of _ _ req lib p]
    by blast
qed

lemma example_diff_calls:
  "backend_calls (trace (put_playlist_patch example_lib 0 example_patch example_world)) =
     [Sp_playlist_remove_tracks 0 [1], Sp_playlist_add_tracks 0 [Track ''spotify:track:c''] 1]"
  unfolding example_patch_handler
  by (simp add: example_apply_diff example_world_def register_playlist_callbacks_def Let_def)

theorem patch_replies_current_state_witness:
  "body_items example_lib example_patch =
     Some [JString ''spotify:track:a'', JString ''spotify:track:c'']
   \<and> valid_tracks example_lib [JString ''spotify:track:a'', JString ''spotify:track:c''] \<noteq> []
   \<and> backend_calls (trace (put_playlist_patch example_lib 0 example_patch example_world)) =
       backend_calls (trace example_world) @
         (case diff_playlist_tracks example_lib (playlists example_world 0)
                 (valid_tracks example_lib
                    [JString ''spotify:track:a'', JString ''spotify:track:c'']) of
            Inl e \<Rightarrow> []
          | Inr d \<Rightarrow>
              snd (snd (diff_playlist_tracks_apply example_lib d 0 (playlists example_world 0)
                          (valid_tracks example_lib
                             [JString ''spotify:track:a'', JString ''spotify:track:c'']))))
   \<and> backend_calls (trace (put_playlist_patch example_lib 0 example_patch example_world)) =
       [Sp_playlist_remove_tracks 0 [1], Sp_playlist_add_tracks 0 [Track ''spotify:track:c''] 1]"
proof -
  have v: "valid_tracks example_lib [JString ''spotify:track:a'', JString ''spotify:track:c''] \<noteq> []"
    by (simp add: example_patch_valid)
  from patch_replies_current_state [OF example_patch_items v, of 0 example_world, THEN conjunct1]
    example_patch_items v example_diff_calls
  show ?thesis by simp
qed

text \<open>C2 as stated fails: the playlist holds a and b and the Patch request asks for a and
  c. The diff is applied (b removed, c inserted) and the change is pending; another
  client puts x behind a; the backend reports the update done. The server answers with
  a, x, c, which is not the desired sequence, and calls no mutation primitive after the
  two of the first application.\<close>

theorem patch_reply_differs_from_desired:
  "body_items example_lib example_patch =
     Some [JString ''spotify:track:a'', JString ''spotify:track:c'']
   \<and> valid_tracks example_lib [JString ''spotify:track:a'', JString ''spotify:track:c'']
       = [Track ''spotify:track:a'', Track ''spotify:track:c'']
   \<and> run example_lib
        [Request example_patch, Backend_change 0 example_mutated,
         Notification 0 (Update_in_progress True)] example_world
      = Some example_patched
   \<and> sp_playlist_tracks (playlists example_patched 0) =
       [Track ''spotify:track:a'', Track ''spotify:track:x'', Track ''spotify:track:c'']
   \<and> backend_calls (trace example_patched) =
       [Sp_playlist_remove_tracks 0 [1], Sp_playlist_add_tracks 0 [Track ''spotify:track:c''] 1]
   \<and> List.map_filter sent_json (trace example_patched) =
       [JObject
          [(''uri'', JString ''spotify:user:u:playlist:p''),
           (''title'', JString ''Mix''),
           (''creator'', JString ''u''),
           (''collaborative'', JFalse),
           (''tracks'',
            JArray [JString ''spotify:track:a'', JString ''spotify:track:x'',
                    JString ''spotify:track:c''])]]"
  using example_patch_items example_patch_valid example_patch_run
  by (simp add: example_patched_def example_mutated_def List.map_filter_simps)

subsection \<open>C6: rejected input\<close>











end
